theory Spec2Isabelle
  imports Main "HOL-Library.Log_Nat" "HOL-Library.Sublist"
begin

section \<open>The expense list: filtering, categories and total\<close>

text \<open>
  The component \<^verbatim>\<open>ExpenseList\<close> exists in two variants:
  \<^verbatim>\<open>src/components/ExpenseList.js\<close> and the unnamed file \<^verbatim>\<open>part_000\<close>.
  Both derive three values from the expense array and the filter state:
  \<^verbatim>\<open>availableCategories\<close>, \<^verbatim>\<open>filteredExpenses\<close> and \<^verbatim>\<open>totalAmount\<close>;
  the filter state starts from two date initialisers. This theory embeds those
  computations, together with the parts of the JavaScript runtime they call
  (Number addition and comparison, \<^verbatim>\<open>parseFloat\<close>, \<^verbatim>\<open>new Date\<close>,
  \<^verbatim>\<open>toISOString\<close>, \<^verbatim>\<open>Set\<close>, \<^verbatim>\<open>filter\<close>, \<^verbatim>\<open>every\<close>, \<^verbatim>\<open>some\<close>).
  A string is a list of code units below 256. The parser of date strings, which
  ECMAScript fixes only in part, is a parameter \<open>parse\<close> of the filter, and the
  time zone a parameter of the date initialisers.
\<close>

subsection \<open>Exceptions\<close>

text \<open>The two exceptions that the calls made here can throw.\<close>

datatype error = TypeError | RangeError

subsection \<open>JavaScript numbers\<close>

text \<open>
  A Number is an IEEE 754 binary64 value. The finite ones are the rationals
  \<open>m * 2^q\<close> with \<open>\<bar>m\<bar> < 2^53\<close> and \<open>- 1074 \<le> q\<close>, of magnitude below \<open>2^1024\<close>.
  The two zeros are identified: \<^verbatim>\<open>+\<close> started from \<^verbatim>\<open>0\<close> never yields \<^verbatim>\<open>-0\<close>,
  and the comparisons do not tell them apart.
\<close>

datatype number = Finite rat | PosInfinity | NegInfinity | NaN

text \<open>\<open>ilog2 x\<close> is the binary exponent of a positive rational: \<open>2^e \<le> x < 2^(e+1)\<close>.\<close>

definition ilog2 :: "rat \<Rightarrow> int" where
  "ilog2 x = (case quotient_of x of (a, b) \<Rightarrow>
     (let d = bitlen a - bitlen b in if power_int 2 d \<le> x then d else d - 1))"

definition round_half_even :: "rat \<Rightarrow> int" where
  "round_half_even x = (let f = \<lfloor>x\<rfloor>; r = x - of_int f in
     if r < 1 / 2 then f else if 1 / 2 < r then f + 1 else if even f then f else f + 1)"

text \<open>The exponent of the unit in the last place: 53 significant bits, subnormals from \<open>2^-1074\<close>.\<close>

definition quantum :: "rat \<Rightarrow> int" where
  "quantum x = max (ilog2 \<bar>x\<bar> - 52) (- 1074)"

definition rnd :: "rat \<Rightarrow> rat" where
  "rnd x = (if x = 0 then 0
            else of_int (round_half_even (x / power_int 2 (quantum x))) * power_int 2 (quantum x))"

text \<open>
  Round to nearest, ties to even; a rounded value whose exponent exceeds 1023
  (a magnitude of \<open>2^1024\<close> or more) overflows to an infinity.
\<close>

definition fl :: "rat \<Rightarrow> number" where
  "fl x = (let y = rnd x in
     if y \<noteq> 0 \<and> 1023 < ilog2 \<bar>y\<bar> then (if 0 < y then PosInfinity else NegInfinity)
     else Finite y)"

definition is_double :: "rat \<Rightarrow> bool" where
  "is_double x = (rnd x = x \<and> (x = 0 \<or> ilog2 \<bar>x\<bar> \<le> 1023))"

text \<open>\<^verbatim>\<open>a + b\<close> on Numbers.\<close>

fun num_add :: "number \<Rightarrow> number \<Rightarrow> number" where
  "num_add (Finite a) (Finite b) = fl (a + b)"
| "num_add NaN _ = NaN"
| "num_add _ NaN = NaN"
| "num_add PosInfinity NegInfinity = NaN"
| "num_add NegInfinity PosInfinity = NaN"
| "num_add PosInfinity _ = PosInfinity"
| "num_add _ PosInfinity = PosInfinity"
| "num_add NegInfinity _ = NegInfinity"
| "num_add _ NegInfinity = NegInfinity"

text \<open>\<^verbatim>\<open>a < b\<close> on Numbers: false as soon as one side is \<^verbatim>\<open>NaN\<close>.\<close>

fun num_less :: "number \<Rightarrow> number \<Rightarrow> bool" where
  "num_less (Finite a) (Finite b) = (a < b)"
| "num_less NaN _ = False"
| "num_less _ NaN = False"
| "num_less _ NegInfinity = False"
| "num_less PosInfinity _ = False"
| "num_less NegInfinity _ = True"
| "num_less _ PosInfinity = True"

text \<open>\<^verbatim>\<open>a <= b\<close> on Numbers.\<close>

fun num_le :: "number \<Rightarrow> number \<Rightarrow> bool" where
  "num_le (Finite a) (Finite b) = (a \<le> b)"
| "num_le NaN _ = False"
| "num_le _ NaN = False"
| "num_le NegInfinity _ = True"
| "num_le _ PosInfinity = True"
| "num_le _ NegInfinity = False"
| "num_le PosInfinity _ = False"

subsection \<open>\<^verbatim>\<open>parseFloat\<close>\<close>

definition is_digit :: "char \<Rightarrow> bool" where
  "is_digit c = (c \<in> set ''0123456789'')"

definition digit_val :: "char \<Rightarrow> nat" where
  "digit_val c = of_char c - 48"

definition digits_val :: "string \<Rightarrow> nat" where
  "digits_val ds = foldl (\<lambda>n c. 10 * n + digit_val c) 0 ds"

text \<open>
  The white space and line terminators among the code units below 256: space,
  TAB, LF, VT, FF, CR and the no-break space U+00A0.
\<close>

definition is_space :: "char \<Rightarrow> bool" where
  "is_space c =
     (c \<in> set [CHR '' '', CHR 0x09, CHR 0x0A, CHR 0x0B, CHR 0x0C, CHR 0x0D, CHR 0xA0])"

fun split_sign :: "string \<Rightarrow> bool \<times> string" where
  "split_sign [] = (False, [])"
| "split_sign (c # cs) =
     (if c = CHR ''-'' then (True, cs) else if c = CHR ''+'' then (False, cs) else (False, c # cs))"

text \<open>An exponent part counts only when a digit follows \<^verbatim>\<open>e\<close> and its optional sign.\<close>

fun exponent_part :: "string \<Rightarrow> int" where
  "exponent_part [] = 0"
| "exponent_part (c # cs) =
     (if c = CHR ''e'' \<or> c = CHR ''E'' then
        (case split_sign cs of (neg, r) \<Rightarrow>
           (let ds = takeWhile is_digit r in
            if ds = [] then 0 else if neg then - int (digits_val ds) else int (digits_val ds)))
      else 0)"

text \<open>
  \<^verbatim>\<open>parseFloat\<close> skips leading white space, reads the longest prefix that is a
  decimal literal (sign, \<^verbatim>\<open>Infinity\<close> or digits with an optional fraction and
  exponent) and rounds its value to a Number; with no such prefix it is \<^verbatim>\<open>NaN\<close>.
\<close>

definition parseFloat :: "string \<Rightarrow> number" where
  "parseFloat input =
     (case split_sign (dropWhile is_space input) of (neg, u) \<Rightarrow>
        if take 8 u = ''Infinity'' then (if neg then NegInfinity else PosInfinity)
        else
          (let ip = takeWhile is_digit u;
               r1 = dropWhile is_digit u;
               fp = (case r1 of [] \<Rightarrow> []
                     | c # r \<Rightarrow> if c = CHR ''.'' then takeWhile is_digit r else []);
               r2 = (case r1 of [] \<Rightarrow> []
                     | c # r \<Rightarrow> if c = CHR ''.'' then dropWhile is_digit r else r1)
           in if ip = [] \<and> fp = [] then NaN
              else
                (let m = of_nat (digits_val (ip @ fp))
                           * power_int 10 (exponent_part r2 - int (length fp))
                 in fl (if neg then - m else m))))"

subsection \<open>Dates\<close>

text \<open>
  The time value of a Date is a number of milliseconds since 1970-01-01T00:00Z,
  or \<^verbatim>\<open>NaN\<close> for an invalid Date (\<open>None\<close>). The day arithmetic is ECMAScript's.
\<close>

definition msPerDay :: int where
  "msPerDay = 86400000"

definition InLeapYear :: "int \<Rightarrow> bool" where
  "InLeapYear y = (y mod 4 = 0 \<and> (y mod 100 \<noteq> 0 \<or> y mod 400 = 0))"

definition DayFromYear :: "int \<Rightarrow> int" where
  "DayFromYear y =
     365 * (y - 1970) + (y - 1969) div 4 - (y - 1901) div 100 + (y - 1601) div 400"

text \<open>Months are numbered from 1 here, as in the date strings.\<close>

definition DaysInMonth :: "int \<Rightarrow> int \<Rightarrow> int" where
  "DaysInMonth y m =
     (if m = 2 then (if InLeapYear y then 29 else 28)
      else if m = 4 \<or> m = 6 \<or> m = 9 \<or> m = 11 then 30 else 31)"

definition DaysBeforeMonth :: "int \<Rightarrow> int \<Rightarrow> int" where
  "DaysBeforeMonth y m =
     (if m = 1 then 0 else if m = 2 then 31
      else (if InLeapYear y then 1 else 0) +
        (if m = 3 then 59 else if m = 4 then 90 else if m = 5 then 120
         else if m = 6 then 151 else if m = 7 then 181 else if m = 8 then 212
         else if m = 9 then 243 else if m = 10 then 273 else if m = 11 then 304
         else 334))"

definition MakeDay :: "int \<Rightarrow> int \<Rightarrow> int \<Rightarrow> int" where
  "MakeDay y m d = DayFromYear y + DaysBeforeMonth y m + d - 1"

definition all_digits :: "string \<Rightarrow> bool" where
  "all_digits s = list_all is_digit s"

text \<open>
  The date-only forms of the ECMAScript date-time string format: \<^verbatim>\<open>YYYY\<close>,
  \<^verbatim>\<open>YYYY-MM\<close> and \<^verbatim>\<open>YYYY-MM-DD\<close>, a missing month or day being 01. The
  last form is what an \<^verbatim>\<open>input\<close> of type \<^verbatim>\<open>date\<close> holds: the two date
  bounds of the filter, and \<^verbatim>\<open>expense.date\<close> when the form's date field was
  filled. A month or day that does not exist is outside the format.
\<close>

definition parse_date :: "string \<Rightarrow> (int \<times> int \<times> int) option" where
  "parse_date s =
     (let y = int (digits_val (take 4 s));
          m = (if length s = 4 then 1 else int (digits_val (take 2 (drop 5 s))));
          d = (if length s = 10 then int (digits_val (drop 8 s)) else 1)
      in if (length s = 4 \<or> length s = 7 \<or> length s = 10)
            \<and> all_digits (take 4 s)
            \<and> (4 < length s \<longrightarrow> s ! 4 = CHR ''-'' \<and> all_digits (take 2 (drop 5 s)))
            \<and> (7 < length s \<longrightarrow> s ! 7 = CHR ''-'' \<and> all_digits (drop 8 s))
            \<and> 1 \<le> m \<and> m \<le> 12 \<and> 1 \<le> d \<and> d \<le> DaysInMonth y m
         then Some (y, m, d) else None)"

text \<open>
  The time value that ECMAScript prescribes for a date-only form: midnight UTC of
  that day. For every other string \<open>date_only_time\<close> is \<open>None\<close>.
\<close>

definition date_only_time :: "string \<Rightarrow> int option" where
  "date_only_time s = (case parse_date s of None \<Rightarrow> None
                       | Some (y, m, d) \<Rightarrow> Some (MakeDay y m d * msPerDay))"

text \<open>
  What \<^verbatim>\<open>handleAddExpense\<close> writes into \<^verbatim>\<open>date\<close> (\<^verbatim>\<open>date || new Date()\<close>):
  the text of the date input, or a Date object when that input is empty. A Date
  object is given by its time value.
\<close>

datatype date_value = DateText string | DateObject "int option"

text \<open>
  \<^verbatim>\<open>new Date(v)\<close>: a string is parsed, a Date object is copied. The parser
  \<open>parse\<close> is the engine's \<^verbatim>\<open>Date.parse\<close>: ECMAScript prescribes its result
  on the date-time string format, of which the date-only forms are a part, and
  leaves every other string to the implementation.
\<close>

definition new_Date :: "(string \<Rightarrow> int option) \<Rightarrow> date_value \<Rightarrow> int option" where
  "new_Date parse v = (case v of DateText s \<Rightarrow> parse s | DateObject t \<Rightarrow> t)"

text \<open>\<^verbatim>\<open>a < b\<close> on two Dates compares their time values; \<^verbatim>\<open>NaN\<close> is below nothing.\<close>

fun date_less :: "int option \<Rightarrow> int option \<Rightarrow> bool" where
  "date_less (Some a) (Some b) = (a < b)"
| "date_less _ _ = False"

text \<open>From a time value back to the calendar, for \<^verbatim>\<open>getFullYear\<close>, \<^verbatim>\<open>getMonth\<close> and \<^verbatim>\<open>toISOString\<close>.\<close>

definition Day :: "int \<Rightarrow> int" where
  "Day t = t div msPerDay"

text \<open>The largest year that starts on or before the day; the estimate is off by at most one.\<close>

definition YearFromDay :: "int \<Rightarrow> int" where
  "YearFromDay d =
     (let y = 1970 + (400 * d) div 146097 in
      if DayFromYear (y + 1) \<le> d then y + 1 else if DayFromYear y \<le> d then y else y - 1)"

definition YearFromTime :: "int \<Rightarrow> int" where
  "YearFromTime t = YearFromDay (Day t)"

definition DayWithinYear :: "int \<Rightarrow> int" where
  "DayWithinYear t = Day t - DayFromYear (YearFromTime t)"

text \<open>The month index, from 0 as \<^verbatim>\<open>getMonth\<close> returns it.\<close>

definition MonthFromTime :: "int \<Rightarrow> int" where
  "MonthFromTime t =
     (let y = YearFromTime t; d = DayWithinYear t in
      if d < DaysBeforeMonth y 2 then 0 else if d < DaysBeforeMonth y 3 then 1
      else if d < DaysBeforeMonth y 4 then 2 else if d < DaysBeforeMonth y 5 then 3
      else if d < DaysBeforeMonth y 6 then 4 else if d < DaysBeforeMonth y 7 then 5
      else if d < DaysBeforeMonth y 8 then 6 else if d < DaysBeforeMonth y 9 then 7
      else if d < DaysBeforeMonth y 10 then 8 else if d < DaysBeforeMonth y 11 then 9
      else if d < DaysBeforeMonth y 12 then 10 else 11)"

definition DateFromTime :: "int \<Rightarrow> int" where
  "DateFromTime t = DayWithinYear t - DaysBeforeMonth (YearFromTime t) (MonthFromTime t + 1) + 1"

text \<open>
  A time zone gives the offset of local time from UTC, in milliseconds: the one in
  force at a UTC time value and the one that applies to a local time value
  (ECMAScript's \<open>LocalTZA(t, true)\<close> and \<open>LocalTZA(t, false)\<close>). With daylight
  saving the offset changes over the year.
\<close>

record zone =
  offset_at_utc :: "int \<Rightarrow> int"
  offset_at_local :: "int \<Rightarrow> int"

definition LocalTime :: "zone \<Rightarrow> int \<Rightarrow> int" where
  "LocalTime z t = t + offset_at_utc z t"

definition UTC :: "zone \<Rightarrow> int \<Rightarrow> int" where
  "UTC z t = t - offset_at_local z t"

definition getFullYear :: "zone \<Rightarrow> int \<Rightarrow> int" where
  "getFullYear z t = YearFromTime (LocalTime z t)"

definition getMonth :: "zone \<Rightarrow> int \<Rightarrow> int" where
  "getMonth z t = MonthFromTime (LocalTime z t)"

definition TimeClip :: "int \<Rightarrow> int option" where
  "TimeClip t = (if 8640000000000000 < \<bar>t\<bar> then None else Some t)"

text \<open>
  \<^verbatim>\<open>new Date(year, monthIndex, day)\<close> for a month index from 0 to 11: local
  midnight of that day; a year from 0 to 99 means 1900 + year.
\<close>

definition new_Date_ymd :: "zone \<Rightarrow> int \<Rightarrow> int \<Rightarrow> int \<Rightarrow> int option" where
  "new_Date_ymd z year monthIndex day =
     (let yr = (if 0 \<le> year \<and> year \<le> 99 then 1900 + year else year)
      in TimeClip (UTC z (MakeDay yr (monthIndex + 1) day * msPerDay)))"

fun pad :: "nat \<Rightarrow> nat \<Rightarrow> string" where
  "pad 0 k = []"
| "pad (Suc n) k = pad n (k div 10) @ [char_of (48 + k mod 10)]"

text \<open>
  \<^verbatim>\<open>toISOString\<close>: \<^verbatim>\<open>YYYY-MM-DDTHH:mm:ss.sssZ\<close> in UTC, the year with a sign
  and six digits outside 0 to 9999; a \<^verbatim>\<open>RangeError\<close> on an invalid Date.
\<close>

definition toISOString :: "int option \<Rightarrow> error + string" where
  "toISOString tv =
     (case tv of None \<Rightarrow> Inl RangeError
      | Some t \<Rightarrow>
          (let y = YearFromTime t; ms = t mod msPerDay in
           Inr ((if 0 \<le> y \<and> y \<le> 9999 then pad 4 (nat y)
                 else (if y < 0 then ''-'' else ''+'') @ pad 6 (nat \<bar>y\<bar>))
                @ ''-'' @ pad 2 (nat (MonthFromTime t + 1))
                @ ''-'' @ pad 2 (nat (DateFromTime t))
                @ ''T'' @ pad 2 (nat (ms div 3600000))
                @ '':'' @ pad 2 (nat ((ms div 60000) mod 60))
                @ '':'' @ pad 2 (nat ((ms div 1000) mod 60))
                @ ''.'' @ pad 3 (nat (ms mod 1000)) @ ''Z'')))"

text \<open>\<^verbatim>\<open>s.split('T')[0]\<close>: the text before the first \<^verbatim>\<open>T\<close>.\<close>

definition split_T_first :: "string \<Rightarrow> string" where
  "split_T_first s = takeWhile (\<lambda>c. c \<noteq> CHR ''T'') s"

subsection \<open>Expenses and the filter state\<close>

text \<open>
  An expense document as the form writes it (\<^verbatim>\<open>handleAddExpense\<close> in
  \<^verbatim>\<open>App.js\<close>): the amount is \<^verbatim>\<open>parseFloat\<close> of a text field, so it can be
  \<^verbatim>\<open>NaN\<close>; \<^verbatim>\<open>description\<close> and \<^verbatim>\<open>categories\<close> may be absent
  (\<^verbatim>\<open>undefined\<close>, \<open>None\<close>).
\<close>

record expense =
  expense_id :: string
  description :: "string option"
  amount :: number
  date :: date_value
  categories :: "string list option"

text \<open>The five \<^verbatim>\<open>useState\<close> cells of the filter; the empty string is the unset bound.\<close>

record filter_state =
  selectedFilterCategories :: "string list"
  filterStartDate :: string
  filterEndDate :: string
  filterAmountMin :: string
  filterAmountMax :: string

subsection \<open>Array and Set operations\<close>

text \<open>A method call on \<^verbatim>\<open>undefined\<close> throws a \<^verbatim>\<open>TypeError\<close>.\<close>

fun includes_js :: "string list option \<Rightarrow> string \<Rightarrow> error + bool" where
  "includes_js None c = Inl TypeError"
| "includes_js (Some cs) c = Inr (c \<in> set cs)"

fun every :: "('a \<Rightarrow> error + bool) \<Rightarrow> 'a list \<Rightarrow> error + bool" where
  "every f [] = Inr True"
| "every f (x # xs) =
     (case f x of Inl err \<Rightarrow> Inl err | Inr b \<Rightarrow> if b then every f xs else Inr False)"

fun some :: "('a \<Rightarrow> error + bool) \<Rightarrow> 'a list \<Rightarrow> error + bool" where
  "some f [] = Inr False"
| "some f (x # xs) =
     (case f x of Inl err \<Rightarrow> Inl err | Inr b \<Rightarrow> if b then Inr True else some f xs)"

fun filter_js :: "('a \<Rightarrow> error + bool) \<Rightarrow> 'a list \<Rightarrow> error + 'a list" where
  "filter_js f [] = Inr []"
| "filter_js f (x # xs) =
     (case f x of Inl err \<Rightarrow> Inl err
      | Inr b \<Rightarrow>
          (case filter_js f xs of Inl err \<Rightarrow> Inl err
           | Inr ys \<Rightarrow> Inr (if b then x # ys else ys)))"

definition flatMap :: "('a \<Rightarrow> 'b list) \<Rightarrow> 'a list \<Rightarrow> 'b list" where
  "flatMap f xs = concat (map f xs)"

text \<open>A Set keeps its elements in insertion order; adding a present element changes nothing.\<close>

definition Set_add :: "'a list \<Rightarrow> 'a \<Rightarrow> 'a list" where
  "Set_add s x = (if x \<in> set s then s else s @ [x])"

definition new_Set :: "'a list \<Rightarrow> 'a list" where
  "new_Set xs = foldl Set_add [] xs"

subsection \<open>The derived values of \<^verbatim>\<open>ExpenseList\<close>\<close>

text \<open>\<^verbatim>\<open>[...new Set(expenses.flatMap(exp => exp.categories || []))]\<close>\<close>

definition availableCategories :: "expense list \<Rightarrow> string list" where
  "availableCategories expenses =
     new_Set (flatMap (\<lambda>exp. case categories exp of None \<Rightarrow> [] | Some cs \<Rightarrow> cs) expenses)"

text \<open>\<^verbatim>\<open>expense.categories && expense.categories.includes(cat)\<close>\<close>

definition category_test :: "expense \<Rightarrow> string \<Rightarrow> error + bool" where
  "category_test e cat =
     (case categories e of None \<Rightarrow> Inr False | Some cs \<Rightarrow> includes_js (categories e) cat)"

text \<open>
  The date range and amount range part of the filter callback, the same text in
  both variants: \<open>False\<close> when one of the four tests returns \<^verbatim>\<open>false\<close>.
\<close>

definition range_test :: "(string \<Rightarrow> int option) \<Rightarrow> filter_state \<Rightarrow> expense \<Rightarrow> bool" where
  "range_test parse s e =
     (if filterStartDate s \<noteq> [] \<and>
         date_less (new_Date parse (date e)) (new_Date parse (DateText (filterStartDate s)))
      then False
      else if filterEndDate s \<noteq> [] \<and>
         date_less (new_Date parse (DateText (filterEndDate s))) (new_Date parse (date e))
      then False
      else if filterAmountMin s \<noteq> [] \<and> num_less (amount e) (parseFloat (filterAmountMin s))
      then False
      else if filterAmountMax s \<noteq> [] \<and> num_less (parseFloat (filterAmountMax s)) (amount e)
      then False
      else True)"

text \<open>The callback of \<^verbatim>\<open>ExpenseList.js\<close>: every selected category must be present.\<close>

definition keep_all :: "(string \<Rightarrow> int option) \<Rightarrow> filter_state \<Rightarrow> expense \<Rightarrow> error + bool" where
  "keep_all parse s e =
     (case (if 0 < length (selectedFilterCategories s)
            then every (category_test e) (selectedFilterCategories s) else Inr True) of
        Inl err \<Rightarrow> Inl err
      | Inr hasAllCategories \<Rightarrow>
          if \<not> hasAllCategories then Inr False else Inr (range_test parse s e))"

text \<open>The callback of \<^verbatim>\<open>part_000\<close>: one selected category must be present.\<close>

definition keep_any :: "(string \<Rightarrow> int option) \<Rightarrow> filter_state \<Rightarrow> expense \<Rightarrow> error + bool" where
  "keep_any parse s e =
     (case (if 0 < length (selectedFilterCategories s)
            then some (category_test e) (selectedFilterCategories s) else Inr True) of
        Inl err \<Rightarrow> Inl err
      | Inr hasMatchingCategory \<Rightarrow>
          if \<not> hasMatchingCategory then Inr False else Inr (range_test parse s e))"

definition filteredExpenses ::
  "(string \<Rightarrow> int option) \<Rightarrow> filter_state \<Rightarrow> expense list \<Rightarrow> error + expense list" where
  "filteredExpenses parse s expenses = filter_js (keep_all parse s) expenses"

definition filteredExpenses_any ::
  "(string \<Rightarrow> int option) \<Rightarrow> filter_state \<Rightarrow> expense list \<Rightarrow> error + expense list" where
  "filteredExpenses_any parse s expenses = filter_js (keep_any parse s) expenses"

text \<open>\<^verbatim>\<open>filteredExpenses.reduce((sum, exp) => sum + exp.amount, 0)\<close>, on any array.\<close>

definition totalAmount :: "expense list \<Rightarrow> number" where
  "totalAmount xs = foldl (\<lambda>sum exp. num_add sum (amount exp)) (Finite 0) xs"

text \<open>
  The initialiser of \<^verbatim>\<open>filterStartDate\<close> (comment: set to 1st of current month),
  at the current time \<open>now\<close> in the zone \<open>z\<close>.
\<close>

definition filterStartDate_init :: "zone \<Rightarrow> int \<Rightarrow> error + string" where
  "filterStartDate_init z now =
     (let firstDayOfMonth = new_Date_ymd z (getFullYear z now) (getMonth z now) 1
      in case toISOString firstDayOfMonth of Inl err \<Rightarrow> Inl err
         | Inr str \<Rightarrow> Inr (split_T_first str))"

text \<open>The initialiser of \<^verbatim>\<open>filterEndDate\<close> (comment: set to current date).\<close>

definition filterEndDate_init :: "zone \<Rightarrow> int \<Rightarrow> error + string" where
  "filterEndDate_init z now =
     (case toISOString (Some now) of Inl err \<Rightarrow> Inl err
      | Inr str \<Rightarrow> Inr (split_T_first str))"

text \<open>The filter state of the first render.\<close>

definition initial_filter_state :: "zone \<Rightarrow> int \<Rightarrow> error + filter_state" where
  "initial_filter_state z now =
     (case filterStartDate_init z now of Inl err \<Rightarrow> Inl err
      | Inr start \<Rightarrow>
          (case filterEndDate_init z now of Inl err \<Rightarrow> Inl err
           | Inr end_date \<Rightarrow>
               Inr \<lparr>selectedFilterCategories = [], filterStartDate = start,
                    filterEndDate = end_date, filterAmountMin = '''', filterAmountMax = ''''\<rparr>))"

subsection \<open>Vocabulary of the properties\<close>

text \<open>An expense carries a label when its \<^verbatim>\<open>categories\<close> array is present and holds it.\<close>

definition has_category :: "expense \<Rightarrow> string \<Rightarrow> bool" where
  "has_category e c = (case categories e of None \<Rightarrow> False | Some cs \<Rightarrow> c \<in> set cs)"

text \<open>What the two callbacks decide, as predicates.\<close>

definition keeps_all :: "(string \<Rightarrow> int option) \<Rightarrow> filter_state \<Rightarrow> expense \<Rightarrow> bool" where
  "keeps_all parse s e =
     (list_all (has_category e) (selectedFilterCategories s) \<and> range_test parse s e)"

definition keeps_any :: "(string \<Rightarrow> int option) \<Rightarrow> filter_state \<Rightarrow> expense \<Rightarrow> bool" where
  "keeps_any parse s e =
     ((selectedFilterCategories s = [] \<or> list_ex (has_category e) (selectedFilterCategories s))
      \<and> range_test parse s e)"

text \<open>The concatenation of the expenses' category arrays, and the place of a first occurrence.\<close>

definition all_labels :: "expense list \<Rightarrow> string list" where
  "all_labels E = concat (map (\<lambda>e. case categories e of None \<Rightarrow> [] | Some cs \<Rightarrow> cs) E)"

definition first_pos :: "'a list \<Rightarrow> 'a \<Rightarrow> nat" where
  "first_pos xs a = length (takeWhile (\<lambda>x. x \<noteq> a) xs)"

text \<open>The filter with nothing selected and no bound set.\<close>

definition empty_filter :: filter_state where
  "empty_filter = \<lparr>selectedFilterCategories = [], filterStartDate = '''',
     filterEndDate = '''', filterAmountMin = '''', filterAmountMax = ''''\<rparr>"

text \<open>
  Calendar days as (year, month, day), ordered as dates are; \<open>valid_day\<close> says
  that the month and the day exist.
\<close>

fun day_less :: "int \<times> int \<times> int \<Rightarrow> int \<times> int \<times> int \<Rightarrow> bool" where
  "day_less (y1, m1, d1) (y2, m2, d2) =
     (y1 < y2 \<or> (y1 = y2 \<and> (m1 < m2 \<or> (m1 = m2 \<and> d1 < d2))))"

fun day_le :: "int \<times> int \<times> int \<Rightarrow> int \<times> int \<times> int \<Rightarrow> bool" where
  "day_le (y1, m1, d1) (y2, m2, d2) =
     (y1 < y2 \<or> (y1 = y2 \<and> (m1 < m2 \<or> (m1 = m2 \<and> d1 \<le> d2))))"

definition valid_day :: "int \<times> int \<times> int \<Rightarrow> bool" where
  "valid_day p = (case p of (y, m, d) \<Rightarrow> 1 \<le> m \<and> m \<le> 12 \<and> 1 \<le> d \<and> d \<le> DaysInMonth y m)"

text \<open>
  The date and amount rules in the specification's words: the day of \<open>a\<close> is the
  day of \<open>b\<close> or a later one; each bound that is set holds, inclusively. A date
  that is not the text of a calendar date satisfies no date bound.
\<close>

definition on_or_after :: "string \<Rightarrow> string \<Rightarrow> bool" where
  "on_or_after a b =
     (case (parse_date a, parse_date b) of (Some p, Some q) \<Rightarrow> day_le q p | _ \<Rightarrow> False)"

definition date_text :: "date_value \<Rightarrow> string" where
  "date_text v = (case v of DateText s \<Rightarrow> s | DateObject t \<Rightarrow> [])"

definition date_within :: "filter_state \<Rightarrow> expense \<Rightarrow> bool" where
  "date_within s e =
     ((filterStartDate s \<noteq> [] \<longrightarrow> on_or_after (date_text (date e)) (filterStartDate s)) \<and>
      (filterEndDate s \<noteq> [] \<longrightarrow> on_or_after (filterEndDate s) (date_text (date e))))"

definition amount_within :: "filter_state \<Rightarrow> expense \<Rightarrow> bool" where
  "amount_within s e =
     ((filterAmountMin s \<noteq> [] \<longrightarrow> num_le (parseFloat (filterAmountMin s)) (amount e)) \<and>
      (filterAmountMax s \<noteq> [] \<longrightarrow> num_le (amount e) (parseFloat (filterAmountMax s))))"

definition within_bounds :: "filter_state \<Rightarrow> expense \<Rightarrow> bool" where
  "within_bounds s e = (date_within s e \<and> amount_within s e)"

text \<open>
  The data model of the specification. Dates: the date of the expense is the
  text of a calendar date, and each date bound is unset or a calendar date (what
  the \<^verbatim>\<open>date\<close> inputs deliver). Amounts: the amount is a quantity, not
  \<^verbatim>\<open>NaN\<close>, and each amount bound is unset or the text of a number (what the
  \<^verbatim>\<open>number\<close> inputs deliver).
\<close>

definition calendar_date :: "string \<Rightarrow> bool" where
  "calendar_date s = (parse_date s \<noteq> None)"

definition dates_typed :: "filter_state \<Rightarrow> expense \<Rightarrow> bool" where
  "dates_typed s e =
     ((case date e of DateText d \<Rightarrow> calendar_date d | DateObject t \<Rightarrow> False) \<and>
      (filterStartDate s = [] \<or> calendar_date (filterStartDate s)) \<and>
      (filterEndDate s = [] \<or> calendar_date (filterEndDate s)))"

definition amounts_typed :: "filter_state \<Rightarrow> expense \<Rightarrow> bool" where
  "amounts_typed s e =
     (amount e \<noteq> NaN \<and>
      (filterAmountMin s = [] \<or> parseFloat (filterAmountMin s) \<noteq> NaN) \<and>
      (filterAmountMax s = [] \<or> parseFloat (filterAmountMax s) \<noteq> NaN))"

text \<open>A parser that gives the date-only forms the time value ECMAScript prescribes.\<close>

definition iso_conforming :: "(string \<Rightarrow> int option) \<Rightarrow> bool" where
  "iso_conforming parse = (\<forall>s. calendar_date s \<longrightarrow> parse s = date_only_time s)"

text \<open>
  What the four tests of the callback leave standing, as comparisons of time
  values and of Numbers: a test excludes an expense only when its comparison is
  true, and a comparison with an invalid Date or with \<^verbatim>\<open>NaN\<close> is false.
\<close>

definition date_ok :: "(string \<Rightarrow> int option) \<Rightarrow> filter_state \<Rightarrow> expense \<Rightarrow> bool" where
  "date_ok parse s e =
     ((filterStartDate s \<noteq> [] \<longrightarrow>
         \<not> date_less (new_Date parse (date e)) (parse (filterStartDate s))) \<and>
      (filterEndDate s \<noteq> [] \<longrightarrow>
         \<not> date_less (parse (filterEndDate s)) (new_Date parse (date e))))"

definition amount_ok :: "filter_state \<Rightarrow> expense \<Rightarrow> bool" where
  "amount_ok s e =
     ((filterAmountMin s \<noteq> [] \<longrightarrow> \<not> num_less (amount e) (parseFloat (filterAmountMin s))) \<and>
      (filterAmountMax s \<noteq> [] \<longrightarrow> \<not> num_less (parseFloat (filterAmountMax s)) (amount e)))"

text \<open>Rounding to the multiples of \<open>2^q\<close>, the step of \<open>rnd\<close> once the exponent is fixed.\<close>

definition grid :: "int \<Rightarrow> rat \<Rightarrow> rat" where
  "grid q x = of_int (round_half_even (x / 2 powi q)) * 2 powi q"

text \<open>
  A running total over non-negative amounts: a non-negative double or
  \<^verbatim>\<open>Infinity\<close>.
\<close>

definition sum_ok :: "number \<Rightarrow> bool" where
  "sum_ok a = (case a of Finite p \<Rightarrow> is_double p \<and> 0 \<le> p | PosInfinity \<Rightarrow> True
               | NegInfinity \<Rightarrow> False | NaN \<Rightarrow> False)"

text \<open>The sum of the amounts in exact arithmetic (of finite amounts).\<close>

definition amount_value :: "expense \<Rightarrow> rat" where
  "amount_value e = (case amount e of Finite q \<Rightarrow> q | _ \<Rightarrow> 0)"

definition exact_sum :: "expense list \<Rightarrow> rat" where
  "exact_sum E = sum_list (map amount_value E)"

text \<open>The local calendar day of a time value.\<close>

definition local_day :: "zone \<Rightarrow> int \<Rightarrow> int \<times> int \<times> int" where
  "local_day z t =
     (let l = LocalTime z t in (YearFromTime l, MonthFromTime l + 1, DateFromTime l))"

subsection \<open>Sample data\<close>

definition lunch :: expense where
  "lunch = \<lparr>expense_id = ''e1'', description = Some ''lunch'', amount = Finite 100,
            date = DateText ''2024-01-05'', categories = Some [''food'']\<rparr>"

definition taxi :: expense where
  "taxi = \<lparr>expense_id = ''e2'', description = None, amount = Finite 50,
           date = DateText ''2024-01-20'', categories = Some [''travel'']\<rparr>"

definition untagged :: expense where
  "untagged = \<lparr>expense_id = ''e3'', description = None, amount = Finite 7,
               date = DateText ''2024-01-31'', categories = None\<rparr>"

definition january_food :: filter_state where
  "january_food = \<lparr>selectedFilterCategories = [''food''], filterStartDate = ''2024-01-01'',
     filterEndDate = ''2024-01-31'', filterAmountMin = '''', filterAmountMax = ''''\<rparr>"

definition fifth_to_twentieth :: filter_state where
  "fifth_to_twentieth = \<lparr>selectedFilterCategories = [], filterStartDate = ''2024-01-05'',
     filterEndDate = ''2024-01-20'', filterAmountMin = ''50'', filterAmountMax = ''100''\<rparr>"

definition sixty_or_more :: filter_state where
  "sixty_or_more = \<lparr>selectedFilterCategories = [], filterStartDate = '''',
     filterEndDate = '''', filterAmountMin = ''60'', filterAmountMax = ''''\<rparr>"

text \<open>
  An expense whose amount field held no number, one saved at 10:00Z on
  31 January 2024 with the date field left empty, and one whose date is no date.
\<close>

definition misdated :: expense where
  "misdated = \<lparr>expense_id = ''e8'', description = None, amount = Finite 5,
               date = DateText ''soon'', categories = Some [''food'']\<rparr>"

definition scribble :: expense where
  "scribble = \<lparr>expense_id = ''e6'', description = Some ''scribble'', amount = parseFloat ''abc'',
               date = DateText ''2024-01-05'', categories = Some [''food'']\<rparr>"

definition undated :: expense where
  "undated = \<lparr>expense_id = ''e7'', description = Some ''undated'', amount = Finite 20,
              date = DateObject (Some 1706695200000), categories = Some [''food'']\<rparr>"

text \<open>Two amounts as the form stores them, \<^verbatim>\<open>parseFloat\<close> of the text typed.\<close>

definition coffee :: expense where
  "coffee = \<lparr>expense_id = ''e4'', description = Some ''coffee'', amount = parseFloat ''0.1'',
             date = DateText ''2024-01-07'', categories = Some [''food'']\<rparr>"

definition tea :: expense where
  "tea = \<lparr>expense_id = ''e5'', description = Some ''tea'', amount = parseFloat ''0.2'',
          date = DateText ''2024-01-08'', categories = Some [''food'']\<rparr>"

text \<open>
  The zone UTC+05:30 and two instants of 15 March 2024 there: 10:00
  (04:30Z) and 03:00 (21:30Z of 14 March).
\<close>

definition ist :: zone where
  "ist = \<lparr>offset_at_utc = (\<lambda>t. 19800000), offset_at_local = (\<lambda>t. 19800000)\<rparr>"

definition march_15_10am_ist :: int where
  "march_15_10am_ist = 1710477000000"

definition march_15_3am_ist :: int where
  "march_15_3am_ist = 1710451800000"

section \<open>Properties\<close>

subsection \<open>The runtime on the sample data\<close>

lemma sample_days:
  "parse_date ''2024-01-01'' = Some (2024, 1, 1)"
  "parse_date ''2024-01-05'' = Some (2024, 1, 5)"
  "parse_date ''2024-01-20'' = Some (2024, 1, 20)"
  "parse_date ''2024-01-31'' = Some (2024, 1, 31)"
  by (simp_all add: parse_date_def all_digits_def is_digit_def digits_val_def digit_val_def
      DaysInMonth_def InLeapYear_def)

lemma sample_times:
  "date_only_time ''2024-01-01'' = Some 1704067200000"
  "date_only_time ''2024-01-05'' = Some 1704412800000"
  "date_only_time ''2024-01-20'' = Some 1705708800000"
  "date_only_time ''2024-01-31'' = Some 1706659200000"
  by (simp_all add: date_only_time_def sample_days MakeDay_def DayFromYear_def DaysBeforeMonth_def
      msPerDay_def)

lemma sample_bounds:
  "parseFloat ''50'' = Finite 50" "parseFloat ''60'' = Finite 60" "parseFloat ''100'' = Finite 100"
  by code_simp+

lemma sample_amounts:
  "parseFloat ''0.1'' = Finite (3602879701896397 / 36028797018963968)"
  "parseFloat ''0.2'' = Finite (3602879701896397 / 18014398509481984)"
  by code_simp+


subsection \<open>The callbacks never throw\<close>

lemma category_test_eq: "category_test e c = Inr (has_category e c)"
  by (simp add: category_test_def has_category_def split: option.split)

lemma every_total: "(\<And>x. f x = Inr (P x)) \<Longrightarrow> every f xs = Inr (list_all P xs)"
  by (induction xs) simp_all

lemma some_total: "(\<And>x. f x = Inr (P x)) \<Longrightarrow> some f xs = Inr (list_ex P xs)"
  by (induction xs) simp_all

lemma filter_js_total: "(\<And>x. f x = Inr (P x)) \<Longrightarrow> filter_js f xs = Inr (filter P xs)"
  by (induction xs) simp_all

lemma keep_all_eq: "keep_all parse s e = Inr (keeps_all parse s e)"
  by (cases "selectedFilterCategories s")
     (simp_all add: keep_all_def keeps_all_def every_total [of _ "has_category e"] category_test_eq)

lemma keep_any_eq: "keep_any parse s e = Inr (keeps_any parse s e)"
  by (cases "selectedFilterCategories s")
     (simp_all add: keep_any_def keeps_any_def some_total [of _ "has_category e"] category_test_eq)

lemma filteredExpenses_eq: "filteredExpenses parse s E = Inr (filter (keeps_all parse s) E)"
  unfolding filteredExpenses_def by (rule filter_js_total) (rule keep_all_eq)

lemma filteredExpenses_any_eq: "filteredExpenses_any parse s E = Inr (filter (keeps_any parse s) E)"
  unfolding filteredExpenses_any_def by (rule filter_js_total) (rule keep_any_eq)

text \<open>
  Claim C8. \<^verbatim>\<open>filteredExpenses\<close> (in both variants) returns an array for every
  expense array and every filter state: the only call that can throw,
  \<^verbatim>\<open>includes\<close> on an absent \<^verbatim>\<open>categories\<close>, is guarded by
  \<^verbatim>\<open>expense.categories &&\<close>. \<^verbatim>\<open>availableCategories\<close> and \<^verbatim>\<open>totalAmount\<close>
  contain no call that can throw and return a value on every input, the empty
  array and expenses without description or categories included.
\<close>

theorem operations_never_throw:
  "(\<exists>R. filteredExpenses parse s E = Inr R) \<and> (\<exists>R. filteredExpenses_any parse s E = Inr R) \<and>
   (\<exists>cs. availableCategories E = cs) \<and> (\<exists>t. totalAmount E = t)"
  by (simp add: filteredExpenses_eq filteredExpenses_any_eq)

theorem operations_never_throw_witness:
  "filteredExpenses date_only_time january_food [untagged, lunch] = Inr [lunch] \<and>
   filteredExpenses_any date_only_time january_food [untagged, lunch] = Inr [lunch] \<and>
   filteredExpenses date_only_time empty_filter [] = Inr [] \<and>
   availableCategories [untagged] = [] \<and> totalAmount [] = Finite 0"
proof -
  have a: "filteredExpenses date_only_time january_food [untagged, lunch] = Inr [lunch]" by code_simp
  have b: "filteredExpenses_any date_only_time january_food [untagged, lunch] = Inr [lunch]" by code_simp
  have c: "filteredExpenses date_only_time empty_filter [] = Inr []" by code_simp
  have d: "availableCategories [untagged] = []" by code_simp
  have e: "totalAmount [] = Finite 0" by (simp add: totalAmount_def)
  from operations_never_throw [where parse = date_only_time and s = january_food and E = "[untagged, lunch]"] a b c d e
  show ?thesis by simp
qed

text \<open>The three scenarios of the specification.\<close>

lemma scenario_january_food:
  "filteredExpenses date_only_time january_food [lunch, taxi] = Inr [lunch]" "totalAmount [lunch] = Finite 100"
proof -
  have "keeps_all date_only_time january_food lunch" "\<not> keeps_all date_only_time january_food taxi"
    by (simp_all add: keeps_all_def has_category_def range_test_def new_Date_def january_food_def lunch_def
        taxi_def sample_times)
  then show "filteredExpenses date_only_time january_food [lunch, taxi] = Inr [lunch]"
    by (simp add: filteredExpenses_eq)
  show "totalAmount [lunch] = Finite 100" by code_simp
qed

lemma scenario_no_expense:
  "filteredExpenses parse s [] = Inr []" "filteredExpenses_any parse s [] = Inr []"
  "totalAmount [] = Finite 0"
  by (simp_all add: filteredExpenses_def filteredExpenses_any_def totalAmount_def)

lemma scenario_sixty_or_more:
  "filteredExpenses date_only_time sixty_or_more [lunch, taxi] = Inr [lunch]"
proof -
  have "keeps_all date_only_time sixty_or_more lunch" "\<not> keeps_all date_only_time sixty_or_more taxi"
    by (simp_all add: keeps_all_def range_test_def new_Date_def sixty_or_more_def lunch_def taxi_def
        sample_bounds)
  then show ?thesis by (simp add: filteredExpenses_eq)
qed

subsection \<open>The filtered array\<close>

text \<open>
  Claim C2. The filtered array is a subsequence of the expense array: it is
  obtained by deleting elements, so every element of the output is an element of
  the input and the order of the input is kept. The filter is a function of the
  filter state and the expense array: equal arguments give equal results. The
  expense array is a value here; \<^verbatim>\<open>filter\<close> builds a new array and the callback
  assigns nothing.
\<close>

theorem filteredExpenses_subsequence:
  "(\<exists>R. filteredExpenses parse s E = Inr R \<and> subseq R E \<and> set R \<subseteq> set E) \<and>
   (\<exists>R. filteredExpenses_any parse s E = Inr R \<and> subseq R E \<and> set R \<subseteq> set E) \<and>
   (s' = s \<and> E' = E \<longrightarrow>
      filteredExpenses parse s' E' = filteredExpenses parse s E \<and>
      filteredExpenses_any parse s' E' = filteredExpenses_any parse s E)"
  by (simp add: filteredExpenses_eq filteredExpenses_any_eq)

theorem filteredExpenses_subsequence_witness:
  "filteredExpenses date_only_time january_food [lunch, taxi] = Inr [lunch] \<and> subseq [lunch] [lunch, taxi] \<and>
   filteredExpenses_any date_only_time january_food [lunch, taxi] = Inr [lunch]"
proof -
  have a: "filteredExpenses date_only_time january_food [lunch, taxi] = Inr [lunch]" by code_simp
  have b: "filteredExpenses_any date_only_time january_food [lunch, taxi] = Inr [lunch]" by code_simp
  from filteredExpenses_subsequence [where parse = date_only_time and s = january_food
      and E = "[lunch, taxi]" and s' = january_food and E' = "[lunch, taxi]"] a b
  show ?thesis by simp
qed

text \<open>
  Claim C3. With no category selected and the four bounds empty, the filtered
  array is the expense array itself.
\<close>

theorem filteredExpenses_empty_filter:
  "filteredExpenses parse empty_filter E = Inr E \<and> filteredExpenses_any parse empty_filter E = Inr E"
proof -
  have "keeps_all parse empty_filter = (\<lambda>e. True)" "keeps_any parse empty_filter = (\<lambda>e. True)"
    by (simp_all add: fun_eq_iff keeps_all_def keeps_any_def range_test_def new_Date_def empty_filter_def)
  then show ?thesis
    by (simp add: filteredExpenses_eq filteredExpenses_any_eq)
qed

theorem filteredExpenses_empty_filter_witness:
  "filteredExpenses date_only_time empty_filter [lunch, taxi, untagged] = Inr [lunch, taxi, untagged]"
  using filteredExpenses_empty_filter [where parse = date_only_time and E = "[lunch, taxi, untagged]"]
  by simp

text \<open>
  Claim C4. Filtering is idempotent: filtering the filtered array again with the
  same filter state returns it unchanged.
\<close>

theorem filteredExpenses_idempotent:
  "(\<exists>R. filteredExpenses parse s E = Inr R \<and> filteredExpenses parse s R = Inr R) \<and>
   (\<exists>R. filteredExpenses_any parse s E = Inr R \<and> filteredExpenses_any parse s R = Inr R)"
  by (simp add: filteredExpenses_eq filteredExpenses_any_eq)

theorem filteredExpenses_idempotent_witness:
  "filteredExpenses date_only_time january_food [lunch, taxi] = Inr [lunch] \<and>
   filteredExpenses date_only_time january_food [lunch] = Inr [lunch]"
proof -
  have a: "filteredExpenses date_only_time january_food [lunch, taxi] = Inr [lunch]" by code_simp
  from filteredExpenses_idempotent [where parse = date_only_time and s = january_food and E = "[lunch, taxi]"] a
  show ?thesis by auto
qed

text \<open>
  Claim C10. The all-match callback of \<^verbatim>\<open>ExpenseList.js\<close> and the any-match
  callback of \<^verbatim>\<open>part_000\<close> give the same filtered array whenever at most one
  category is selected; when the two arrays differ, two or more categories are
  selected.
\<close>

theorem variants_agree_upto_one_category:
  "(length (selectedFilterCategories s) \<le> 1 \<longrightarrow>
      filteredExpenses parse s E = filteredExpenses_any parse s E) \<and>
   (filteredExpenses parse s E \<noteq> filteredExpenses_any parse s E \<longrightarrow>
      2 \<le> length (selectedFilterCategories s))"
proof -
  have "filteredExpenses parse s E = filteredExpenses_any parse s E"
    if "length (selectedFilterCategories s) \<le> 1"
  proof -
    from that consider "selectedFilterCategories s = []" | c where "selectedFilterCategories s = [c]"
      by (cases "selectedFilterCategories s") auto
    then have "keeps_all parse s = keeps_any parse s"
      by cases (simp_all add: fun_eq_iff keeps_all_def keeps_any_def)
    then show ?thesis
      by (simp add: filteredExpenses_eq filteredExpenses_any_eq)
  qed
  then show ?thesis by fastforce
qed

theorem variants_agree_upto_one_category_witness:
  "length (selectedFilterCategories january_food) \<le> 1 \<and>
   filteredExpenses date_only_time january_food [lunch, taxi, untagged] = Inr [lunch] \<and>
   filteredExpenses_any date_only_time january_food [lunch, taxi, untagged] = Inr [lunch]"
proof -
  have a: "length (selectedFilterCategories january_food) \<le> 1" by (simp add: january_food_def)
  have b: "filteredExpenses date_only_time january_food [lunch, taxi, untagged] = Inr [lunch]" by code_simp
  from variants_agree_upto_one_category [where parse = date_only_time and s = january_food
      and E = "[lunch, taxi, untagged]"] a b
  show ?thesis by simp
qed

subsection \<open>The available categories\<close>

lemma new_Set_snoc: "new_Set (xs @ [x]) = Set_add (new_Set xs) x"
  by (simp add: new_Set_def)

lemma set_new_Set: "set (new_Set xs) = set xs"
  by (induction xs rule: rev_induct) (auto simp: new_Set_snoc Set_add_def, simp add: new_Set_def)

lemma distinct_new_Set: "distinct (new_Set xs)"
  by (induction xs rule: rev_induct) (simp_all add: new_Set_snoc Set_add_def, simp add: new_Set_def)

lemma first_pos_append_in: "a \<in> set xs \<Longrightarrow> first_pos (xs @ zs) a = first_pos xs a"
  by (simp add: first_pos_def)

lemma first_pos_less: "a \<in> set xs \<Longrightarrow> first_pos xs a < length xs"
  unfolding first_pos_def by (induction xs) auto

lemma first_pos_snoc_new: "a \<notin> set xs \<Longrightarrow> first_pos (xs @ [a]) a = length xs"
  unfolding first_pos_def by (induction xs) auto

lemma new_Set_order:
  "a \<in> set xs \<Longrightarrow> b \<in> set xs \<Longrightarrow>
   (first_pos (new_Set xs) a < first_pos (new_Set xs) b) = (first_pos xs a < first_pos xs b)"
proof (induction xs rule: rev_induct)
  case Nil
  then show ?case by simp
next
  case (snoc x xs)
  show ?case
  proof (cases "x \<in> set xs")
    case True
    with snoc show ?thesis
      by (auto simp: new_Set_snoc Set_add_def set_new_Set first_pos_append_in)
  next
    case False
    then have nx: "x \<notin> set (new_Set xs)" by (simp add: set_new_Set)
    have len: "\<And>c. c \<in> set xs \<Longrightarrow> first_pos (new_Set xs) c < length (new_Set xs)"
      by (simp add: first_pos_less set_new_Set)
    have eq: "new_Set (xs @ [x]) = new_Set xs @ [x]"
      using nx by (simp add: new_Set_snoc Set_add_def)
    consider "a \<in> set xs" "b \<in> set xs" | "a = x" "b \<in> set xs"
      | "a \<in> set xs" "b = x" | "a = x" "b = x"
      using snoc.prems by auto
    then show ?thesis
    proof cases
      case 1
      then show ?thesis using snoc.IH
        by (simp add: eq first_pos_append_in set_new_Set)
    next
      case 2
      then show ?thesis using False nx len [of b] first_pos_less [of b xs]
        by (simp add: eq first_pos_append_in set_new_Set first_pos_snoc_new)
    next
      case 3
      then show ?thesis using False nx len [of a] first_pos_less [of a xs]
        by (simp add: eq first_pos_append_in set_new_Set first_pos_snoc_new)
    next
      case 4
      then show ?thesis by simp
    qed
  qed
qed

text \<open>
  Claim C5. \<^verbatim>\<open>availableCategories\<close> has no duplicate, holds exactly the labels
  of the expenses' category arrays (so every label of every expense), and lists
  them in the order of their first occurrences in the concatenation of those
  arrays: one label stands before another in the result exactly when its first
  occurrence in the concatenation comes first. With no expense it is empty.
\<close>

theorem availableCategories_first_seen:
  "distinct (availableCategories E) \<and>
   set (availableCategories E) = set (all_labels E) \<and>
   (\<forall>e \<in> set E. \<forall>cs. categories e = Some cs \<longrightarrow> set cs \<subseteq> set (availableCategories E)) \<and>
   (\<forall>a \<in> set (all_labels E). \<forall>b \<in> set (all_labels E).
      (first_pos (availableCategories E) a < first_pos (availableCategories E) b)
        = (first_pos (all_labels E) a < first_pos (all_labels E) b)) \<and>
   availableCategories [] = []"
proof -
  have eq: "availableCategories E = new_Set (all_labels E)"
    by (simp add: availableCategories_def all_labels_def flatMap_def)
  have sub: "\<forall>e \<in> set E. \<forall>cs. categories e = Some cs \<longrightarrow> set cs \<subseteq> set (all_labels E)"
    by (auto simp: all_labels_def split: option.splits)
  have "availableCategories [] = []"
    by (simp add: availableCategories_def flatMap_def new_Set_def)
  with sub show ?thesis
    by (simp add: eq distinct_new_Set set_new_Set new_Set_order)
qed

theorem availableCategories_first_seen_witness:
  "availableCategories [taxi, lunch, untagged, taxi] = [''travel'', ''food''] \<and>
   all_labels [taxi, lunch, untagged, taxi] = [''travel'', ''food'', ''travel''] \<and>
   distinct (availableCategories [taxi, lunch, untagged, taxi])"
proof -
  have a: "availableCategories [taxi, lunch, untagged, taxi] = [''travel'', ''food'']"
    by code_simp
  have b: "all_labels [taxi, lunch, untagged, taxi] = [''travel'', ''food'', ''travel'']"
    by code_simp
  from availableCategories_first_seen [of "[taxi, lunch, untagged, taxi]"] a b
  show ?thesis by simp
qed

subsection \<open>Calendar days and time values\<close>

lemma div_next:
  fixes n k :: int
  assumes "0 < k"
  shows "(n + 1) div k = n div k + (if k dvd n + 1 then 1 else 0)"
proof (cases "k dvd n + 1")
  case True
  then obtain q where q: "n + 1 = k * q" by (auto simp: dvd_def)
  then have n: "n = k * (q - 1) + (k - 1)" by (simp add: algebra_simps)
  have "n div k = q - 1"
    unfolding n using assms by (simp add: div_pos_pos_trivial)
  moreover have "(n + 1) div k = q" using q assms by simp
  ultimately show ?thesis using True by simp
next
  case False
  have m: "n mod k + 1 < k"
  proof (rule ccontr)
    assume "\<not> n mod k + 1 < k"
    moreover have "n mod k < k" using assms by simp
    ultimately have e: "n mod k = k - 1" by linarith
    have "n + 1 = k * (n div k) + (n mod k + 1)" by simp
    also have "\<dots> = k * (n div k + 1)" using e by (simp add: algebra_simps)
    finally have "k dvd n + 1" by (metis dvd_triv_left)
    with False show False by simp
  qed
  have "0 \<le> n mod k" using assms by simp
  have "n + 1 = (n mod k + 1) + (n div k) * k" by simp
  then have "(n + 1) div k = ((n mod k + 1) + (n div k) * k) div k" by simp
  also have "\<dots> = (n mod k + 1) div k + n div k"
    using assms by (subst div_mult_self1) simp_all
  also have "(n mod k + 1) div k = 0"
    using m \<open>0 \<le> n mod k\<close> by (simp add: div_pos_pos_trivial)
  finally show ?thesis using False by simp
qed

lemma dvd_shift:
  fixes y :: int
  shows "4 dvd y - 1968 \<longleftrightarrow> 4 dvd y" "100 dvd y - 1900 \<longleftrightarrow> 100 dvd y"
    "400 dvd y - 1600 \<longleftrightarrow> 400 dvd y"
proof -
  have "(4::int) dvd 1968" "(100::int) dvd 1900" "(400::int) dvd 1600" by simp_all
  then show "4 dvd y - 1968 \<longleftrightarrow> 4 dvd y" "100 dvd y - 1900 \<longleftrightarrow> 100 dvd y"
    "400 dvd y - 1600 \<longleftrightarrow> 400 dvd y"
    by (simp_all add: dvd_diff_left_iff)
qed

lemma InLeapYear_dvd: "InLeapYear y = (4 dvd y \<and> (\<not> 100 dvd y \<or> 400 dvd y))"
  by (simp add: InLeapYear_def dvd_eq_mod_eq_0)

lemma dvd_chain:
  fixes y :: int
  shows "400 dvd y \<Longrightarrow> 100 dvd y" "100 dvd y \<Longrightarrow> 4 dvd y"
proof -
  have "(100::int) dvd 400" "(4::int) dvd 100" by simp_all
  then show "400 dvd y \<Longrightarrow> 100 dvd y" "100 dvd y \<Longrightarrow> 4 dvd y"
    using dvd_trans by blast+
qed

lemma DayFromYear_next:
  "DayFromYear (y + 1) = DayFromYear y + (if InLeapYear y then 366 else 365)"
proof -
  have a: "(y + 1 - 1969) div 4 = (y - 1969) div 4 + (if 4 dvd y then 1 else 0)"
    using div_next [of 4 "y - 1969"] dvd_shift(1) [of y] by (simp add: algebra_simps)
  have b: "(y + 1 - 1901) div 100 = (y - 1901) div 100 + (if 100 dvd y then 1 else 0)"
    using div_next [of 100 "y - 1901"] dvd_shift(2) [of y] by (simp add: algebra_simps)
  have c: "(y + 1 - 1601) div 400 = (y - 1601) div 400 + (if 400 dvd y then 1 else 0)"
    using div_next [of 400 "y - 1601"] dvd_shift(3) [of y] by (simp add: algebra_simps)
  define A B C where "A = (4 dvd y)" and "B = (100 dvd y)" and "C = (400 dvd y)"
  have imp: "C \<longrightarrow> B" "B \<longrightarrow> A"
    using dvd_chain [of y] by (simp_all add: A_def B_def C_def)
  have step: "DayFromYear (y + 1) =
      DayFromYear y + 365 + (if A then 1 else 0) - (if B then 1 else 0) + (if C then 1 else 0)"
    unfolding DayFromYear_def a b c A_def B_def C_def by (simp only: algebra_simps)
  have leap: "InLeapYear y = (A \<and> (\<not> B \<or> C))"
    by (simp only: InLeapYear_dvd A_def B_def C_def)
  show ?thesis
    unfolding step leap using imp by (cases A; cases B; cases C; simp)
qed


lemma DayFromYear_next_ge: "DayFromYear y + 365 \<le> DayFromYear (y + 1)"
  by (simp add: DayFromYear_next)

lemma DayFromYear_mono_aux: "DayFromYear y \<le> DayFromYear (y + int k)"
proof (induction k)
  case 0
  then show ?case by simp
next
  case (Suc k)
  have "y + int (Suc k) = (y + int k) + 1" by simp
  then have "DayFromYear (y + int (Suc k)) = DayFromYear ((y + int k) + 1)"
    by (simp only:)
  with DayFromYear_next_ge [of "y + int k"] Suc show ?case by linarith
qed

lemma DayFromYear_later:
  assumes "y1 < y2"
  shows "DayFromYear y1 + (if InLeapYear y1 then 366 else 365) \<le> DayFromYear y2"
proof -
  from assms have "0 \<le> y2 - (y1 + 1)" by simp
  then obtain k where "y2 - (y1 + 1) = int k" using nonneg_int_cases by blast
  then have k: "y2 = (y1 + 1) + int k" by simp
  from DayFromYear_mono_aux [of "y1 + 1" k] k
  show ?thesis by (simp add: DayFromYear_next)
qed

lemma month_cases:
  "1 \<le> m \<Longrightarrow> m \<le> 12 \<Longrightarrow>
   (m::int) = 1 \<or> m = 2 \<or> m = 3 \<or> m = 4 \<or> m = 5 \<or> m = 6 \<or> m = 7 \<or> m = 8 \<or> m = 9
     \<or> m = 10 \<or> m = 11 \<or> m = 12"
  by arith

lemma DaysBeforeMonth_next:
  assumes "1 \<le> m" "m \<le> 11"
  shows "DaysBeforeMonth y (m + 1) = DaysBeforeMonth y m + DaysInMonth y m"
proof -
  from assms month_cases [of m]
  have "m = 1 \<or> m = 2 \<or> m = 3 \<or> m = 4 \<or> m = 5 \<or> m = 6 \<or> m = 7 \<or> m = 8 \<or> m = 9
     \<or> m = 10 \<or> m = 11" by simp
  then show ?thesis
    by (elim disjE) (simp_all add: DaysBeforeMonth_def DaysInMonth_def)
qed

lemma DaysInMonth_pos: "0 < DaysInMonth y m"
  by (simp add: DaysInMonth_def)

lemma DaysBeforeMonth_mono_aux:
  "1 \<le> m \<Longrightarrow> m + int k \<le> 12 \<Longrightarrow> DaysBeforeMonth y m \<le> DaysBeforeMonth y (m + int k)"
proof (induction k)
  case 0
  then show ?case by simp
next
  case (Suc k)
  have e: "m + int (Suc k) = (m + int k) + 1" by simp
  have "DaysBeforeMonth y ((m + int k) + 1) = DaysBeforeMonth y (m + int k) + DaysInMonth y (m + int k)"
    using Suc.prems by (intro DaysBeforeMonth_next) simp_all
  with Suc DaysInMonth_pos [of y "m + int k"] show ?case
    unfolding e by simp
qed

lemma month_end_before_later_month:
  assumes "1 \<le> m1" "m1 < m2" "m2 \<le> 12"
  shows "DaysBeforeMonth y m1 + DaysInMonth y m1 \<le> DaysBeforeMonth y m2"
proof -
  from assms have "0 \<le> m2 - (m1 + 1)" by simp
  then obtain k where "m2 - (m1 + 1) = int k" using nonneg_int_cases by blast
  then have k: "m2 = (m1 + 1) + int k" by simp
  have "DaysBeforeMonth y (m1 + 1) \<le> DaysBeforeMonth y ((m1 + 1) + int k)"
    using assms k by (intro DaysBeforeMonth_mono_aux) simp_all
  moreover have "DaysBeforeMonth y (m1 + 1) = DaysBeforeMonth y m1 + DaysInMonth y m1"
    using assms by (intro DaysBeforeMonth_next) simp_all
  ultimately show ?thesis using k by simp
qed

lemma DaysBeforeMonth_nonneg: "0 \<le> DaysBeforeMonth y m"
  by (simp add: DaysBeforeMonth_def)

lemma year_end:
  assumes "1 \<le> m" "m \<le> 12"
  shows "DaysBeforeMonth y m + DaysInMonth y m \<le> (if InLeapYear y then 366 else 365)"
proof (cases "m = 12")
  case True
  then show ?thesis by (simp add: DaysBeforeMonth_def DaysInMonth_def)
next
  case False
  with assms have "m < 12" by simp
  have "DaysBeforeMonth y 12 = (if InLeapYear y then 1 else 0) + 334"
    by (simp add: DaysBeforeMonth_def)
  with month_end_before_later_month [OF assms(1) \<open>m < 12\<close>, of y]
  have "DaysBeforeMonth y m + DaysInMonth y m \<le> (if InLeapYear y then 1 else 0) + 334"
    by simp
  then show ?thesis by (simp split: if_splits)
qed

lemma MakeDay_strict_mono:
  assumes "valid_day (y1, m1, d1)" "valid_day (y2, m2, d2)" "day_less (y1, m1, d1) (y2, m2, d2)"
  shows "MakeDay y1 m1 d1 < MakeDay y2 m2 d2"
proof -
  from assms(1) have v1: "1 \<le> m1" "m1 \<le> 12" "1 \<le> d1" "d1 \<le> DaysInMonth y1 m1"
    by (simp_all add: valid_day_def)
  from assms(2) have v2: "1 \<le> m2" "m2 \<le> 12" "1 \<le> d2" "d2 \<le> DaysInMonth y2 m2"
    by (simp_all add: valid_day_def)
  from assms(3) consider "y1 < y2" | "y1 = y2" "m1 < m2" | "y1 = y2" "m1 = m2" "d1 < d2"
    by auto
  then show ?thesis
  proof cases
    case 1
    from year_end [OF v1(1,2), of y1] DayFromYear_later [OF 1] DaysBeforeMonth_nonneg [of y2 m2]
      v1(4) v2(3)
    show ?thesis unfolding MakeDay_def by linarith
  next
    case 2
    from month_end_before_later_month [OF v1(1) 2(2) v2(2), of y1] v1(4) v2(3)
    have "DaysBeforeMonth y1 m1 + d1 < DaysBeforeMonth y1 m2 + d2" by linarith
    with 2(1) show ?thesis by (simp add: MakeDay_def)
  next
    case 3
    then show ?thesis by (simp add: MakeDay_def)
  qed
qed

lemma parse_date_valid: "parse_date s = Some p \<Longrightarrow> valid_day p"
  by (auto simp: parse_date_def valid_day_def Let_def split: if_splits)

lemma day_le_iff: "day_le p q = (\<not> day_less q p)"
  by (cases p; cases q) auto

lemma MakeDay_mono:
  assumes "valid_day (y1, m1, d1)" "valid_day (y2, m2, d2)"
  shows "(MakeDay y1 m1 d1 < MakeDay y2 m2 d2) = day_less (y1, m1, d1) (y2, m2, d2)"
proof
  assume lt: "MakeDay y1 m1 d1 < MakeDay y2 m2 d2"
  show "day_less (y1, m1, d1) (y2, m2, d2)"
  proof (rule ccontr)
    assume n: "\<not> day_less (y1, m1, d1) (y2, m2, d2)"
    then consider "(y1, m1, d1) = (y2, m2, d2)" | "day_less (y2, m2, d2) (y1, m1, d1)"
      by fastforce
    then show False
    proof cases
      case 1
      with lt show False by simp
    next
      case 2
      from MakeDay_strict_mono [OF assms(2,1) 2] lt show False by simp
    qed
  qed
next
  assume "day_less (y1, m1, d1) (y2, m2, d2)"
  with assms show "MakeDay y1 m1 d1 < MakeDay y2 m2 d2" by (rule MakeDay_strict_mono)
qed

lemma div_bracket:
  fixes x k :: int
  assumes "0 < k"
  shows "k * (x div k) \<le> x" "x - (k - 1) \<le> k * (x div k)"
proof -
  have "x = k * (x div k) + x mod k" by simp
  moreover have "0 \<le> x mod k" "x mod k < k" using assms by simp_all
  ultimately show "k * (x div k) \<le> x" "x - (k - 1) \<le> k * (x div k)" by linarith+
qed

lemma date_less_calendar:
  assumes "calendar_date a" "calendar_date b"
  shows "(\<not> date_less (date_only_time a) (date_only_time b)) = on_or_after a b"
proof -
  from assms obtain p q where p: "parse_date a = Some p" and q: "parse_date b = Some q"
    by (auto simp: calendar_date_def)
  obtain y1 m1 d1 where p': "p = (y1, m1, d1)" by (cases p)
  obtain y2 m2 d2 where q': "q = (y2, m2, d2)" by (cases q)
  have v: "valid_day (y1, m1, d1)" "valid_day (y2, m2, d2)"
    using parse_date_valid p q p' q' by blast+
  have "date_less (date_only_time a) (date_only_time b) = (MakeDay y1 m1 d1 < MakeDay y2 m2 d2)"
    by (simp add: date_only_time_def p q p' q' msPerDay_def)
  also have "\<dots> = day_less p q" unfolding p' q' by (rule MakeDay_mono [OF v])
  finally show ?thesis
    by (simp add: on_or_after_def p q day_le_iff)
qed

lemma num_less_le: "a \<noteq> NaN \<Longrightarrow> b \<noteq> NaN \<Longrightarrow> (\<not> num_less a b) = num_le b a"
  by (cases a; cases b) auto

lemma num_less_NaN: "\<not> num_less NaN b" "\<not> num_less a NaN"
  by (cases b; simp) (cases a; simp)

lemma date_less_None: "\<not> date_less None b" "\<not> date_less a None"
  by (cases b; simp) (cases a; simp)

text \<open>The callback's four tests, read off the code: no hypothesis.\<close>

lemma range_test_eq: "range_test parse s e = (date_ok parse s e \<and> amount_ok s e)"
  by (auto simp: range_test_def date_ok_def amount_ok_def new_Date_def)

lemma date_ok_within:
  assumes "iso_conforming parse" "dates_typed s e"
  shows "date_ok parse s e = date_within s e"
proof -
  from assms(2) obtain d where d: "date e = DateText d" "calendar_date d"
    by (cases "date e") (simp_all add: dates_typed_def)
  have pd: "new_Date parse (date e) = date_only_time d"
    using assms(1) d by (simp add: new_Date_def iso_conforming_def)
  have a: "filterStartDate s \<noteq> [] \<Longrightarrow>
      (\<not> date_less (new_Date parse (date e)) (parse (filterStartDate s)))
        = on_or_after d (filterStartDate s)"
  proof -
    assume "filterStartDate s \<noteq> []"
    with assms(2) have c: "calendar_date (filterStartDate s)" by (simp add: dates_typed_def)
    with assms(1) have "parse (filterStartDate s) = date_only_time (filterStartDate s)"
      by (simp add: iso_conforming_def)
    with date_less_calendar [OF d(2) c] pd show ?thesis by simp
  qed
  have b: "filterEndDate s \<noteq> [] \<Longrightarrow>
      (\<not> date_less (parse (filterEndDate s)) (new_Date parse (date e)))
        = on_or_after (filterEndDate s) d"
  proof -
    assume "filterEndDate s \<noteq> []"
    with assms(2) have c: "calendar_date (filterEndDate s)" by (simp add: dates_typed_def)
    with assms(1) have "parse (filterEndDate s) = date_only_time (filterEndDate s)"
      by (simp add: iso_conforming_def)
    with date_less_calendar [OF c d(2)] pd show ?thesis by simp
  qed
  show ?thesis
    unfolding date_ok_def date_within_def using a b by (auto simp: d(1) date_text_def)
qed

lemma amount_ok_within:
  assumes "amounts_typed s e"
  shows "amount_ok s e = amount_within s e"
proof -
  have a: "filterAmountMin s \<noteq> [] \<Longrightarrow>
      (\<not> num_less (amount e) (parseFloat (filterAmountMin s)))
        = num_le (parseFloat (filterAmountMin s)) (amount e)"
    using assms by (intro num_less_le) (auto simp: amounts_typed_def)
  have b: "filterAmountMax s \<noteq> [] \<Longrightarrow>
      (\<not> num_less (parseFloat (filterAmountMax s)) (amount e))
        = num_le (amount e) (parseFloat (filterAmountMax s))"
    using assms by (intro num_less_le) (auto simp: amounts_typed_def)
  show ?thesis
    unfolding amount_ok_def amount_within_def using a b by auto
qed

lemma on_or_after_refl: "calendar_date a \<Longrightarrow> on_or_after a a"
  by (auto simp: calendar_date_def on_or_after_def)

text \<open>
  A date that carries a time of day, against a bound that is midnight UTC of
  day \<open>n\<close>: the start test looks at the UTC day of the instant, the end test
  excludes every instant after midnight of the end day.
\<close>

lemma date_object_start:
  assumes "b = Some (n * msPerDay)"
  shows "(\<not> date_less (Some t) b) = (n \<le> Day t)"
proof -
  have "(n * 86400000 \<le> t) = (n \<le> t div 86400000)"
    using zdiv_mono1 [of "n * 86400000" t 86400000]
      div_bracket(1) [of 86400000 t] by auto
  then show ?thesis by (auto simp: assms Day_def msPerDay_def)
qed

lemma date_object_end:
  assumes "b = Some (n * msPerDay)"
  shows "(\<not> date_less b (Some t)) = (t \<le> n * msPerDay)"
  by (auto simp: assms)

lemma undated_on_end_date:
  "Day 1706695200000 = MakeDay 2024 1 31"
  "\<not> range_test date_only_time january_food undated"
  by (simp_all add: range_test_def new_Date_def january_food_def undated_def sample_times
      Day_def msPerDay_def MakeDay_def DayFromYear_def DaysBeforeMonth_def)

text \<open>
  Claim C1, as stated, fails: with the minimum set to 60, the filter keeps an
  expense whose amount is \<^verbatim>\<open>NaN\<close> (what \<^verbatim>\<open>parseFloat\<close> stores for an amount
  field that holds no number), although that amount is not 60 or more:
  \<^verbatim>\<open>NaN < 60\<close> is false, so the test excludes nothing.
\<close>

theorem filteredExpenses_keeps_NaN_amount:
  "amount scribble = NaN \<and>
   filteredExpenses date_only_time sixty_or_more [scribble] = Inr [scribble] \<and>
   filteredExpenses_any date_only_time sixty_or_more [scribble] = Inr [scribble] \<and>
   \<not> num_le (parseFloat ''60'') (amount scribble) \<and>
   \<not> within_bounds sixty_or_more scribble"
proof -
  have a: "parseFloat ''abc'' = NaN" by code_simp
  then have b: "amount scribble = NaN" by (simp add: scribble_def)
  have c: "keeps_all date_only_time sixty_or_more scribble"
    "keeps_any date_only_time sixty_or_more scribble"
    by (simp_all add: keeps_all_def keeps_any_def range_test_def new_Date_def sixty_or_more_def
        b num_less_NaN)
  have d: "\<not> within_bounds sixty_or_more scribble"
    by (simp add: within_bounds_def amount_within_def sixty_or_more_def b sample_bounds)
  show ?thesis
    using d by (simp add: b c filteredExpenses_eq filteredExpenses_any_eq sample_bounds)
qed

text \<open>
  Claim C1, amended. For every expense array, filter state and date parser, the
  filter keeps an expense exactly when it passes the category rule and none of
  the four tests excludes it: the date earlier than the start date, the date
  later than the end date, the amount less than the minimum, the amount greater
  than the maximum, each only when its bound is set; a comparison with an
  invalid date or with \<^verbatim>\<open>NaN\<close> is false and excludes nothing. When the date of
  the expense and the date bounds that are set are calendar dates (and the
  parser conforms to ECMAScript on them), the date tests are exactly: date on or
  after the start date and on or before the end date, by calendar day,
  inclusively. When the amount and the amount bounds that are set are not
  \<^verbatim>\<open>NaN\<close>, the amount tests are exactly: amount at least the minimum and at
  most the maximum. An expense dated on the start date or on the end date
  satisfies that bound.
\<close>

theorem filteredExpenses_range_rules:
  "filteredExpenses parse s E =
     Inr (filter (\<lambda>e. list_all (has_category e) (selectedFilterCategories s)
                        \<and> date_ok parse s e \<and> amount_ok s e) E) \<and>
   filteredExpenses_any parse s E =
     Inr (filter (\<lambda>e. (selectedFilterCategories s = []
                         \<or> list_ex (has_category e) (selectedFilterCategories s))
                        \<and> date_ok parse s e \<and> amount_ok s e) E) \<and>
   (amount e = NaN \<longrightarrow> amount_ok s e) \<and>
   (new_Date parse (date e) = None \<longrightarrow> date_ok parse s e) \<and>
   (iso_conforming parse \<and> dates_typed s e \<longrightarrow> date_ok parse s e = date_within s e) \<and>
   (amounts_typed s e \<longrightarrow> amount_ok s e = amount_within s e) \<and>
   (iso_conforming parse \<and> (\<forall>x \<in> set E. dates_typed s x \<and> amounts_typed s x) \<longrightarrow>
      filteredExpenses parse s E =
        Inr (filter (\<lambda>e. list_all (has_category e) (selectedFilterCategories s)
                           \<and> within_bounds s e) E) \<and>
      filteredExpenses_any parse s E =
        Inr (filter (\<lambda>e. (selectedFilterCategories s = []
                            \<or> list_ex (has_category e) (selectedFilterCategories s))
                           \<and> within_bounds s e) E)) \<and>
   (dates_typed s e \<and> date_text (date e) = filterStartDate s \<longrightarrow>
      on_or_after (date_text (date e)) (filterStartDate s)) \<and>
   (dates_typed s e \<and> date_text (date e) = filterEndDate s \<longrightarrow>
      on_or_after (filterEndDate s) (date_text (date e)))"
proof -
  have a: "keeps_all parse s =
      (\<lambda>e. list_all (has_category e) (selectedFilterCategories s)
              \<and> date_ok parse s e \<and> amount_ok s e)"
    by (simp add: fun_eq_iff keeps_all_def range_test_eq)
  have b: "keeps_any parse s =
      (\<lambda>e. (selectedFilterCategories s = []
                \<or> list_ex (has_category e) (selectedFilterCategories s))
              \<and> date_ok parse s e \<and> amount_ok s e)"
    by (simp add: fun_eq_iff keeps_any_def range_test_eq)
  have c: "amount e = NaN \<longrightarrow> amount_ok s e"
    by (simp add: amount_ok_def num_less_NaN)
  have d: "new_Date parse (date e) = None \<longrightarrow> date_ok parse s e"
    by (simp add: date_ok_def date_less_None)
  have f: "iso_conforming parse \<and> dates_typed s e \<longrightarrow> date_ok parse s e = date_within s e"
    by (simp add: date_ok_within)
  have g: "amounts_typed s e \<longrightarrow> amount_ok s e = amount_within s e"
    by (simp add: amount_ok_within)
  have h: "filter (keeps_all parse s) E =
        filter (\<lambda>e. list_all (has_category e) (selectedFilterCategories s)
                      \<and> within_bounds s e) E"
      "filter (keeps_any parse s) E =
        filter (\<lambda>e. (selectedFilterCategories s = []
                        \<or> list_ex (has_category e) (selectedFilterCategories s))
                      \<and> within_bounds s e) E"
    if "iso_conforming parse" "\<forall>x \<in> set E. dates_typed s x \<and> amounts_typed s x"
  proof -
    have r: "\<And>x. x \<in> set E \<Longrightarrow> range_test parse s x = within_bounds s x"
      using that by (simp add: range_test_eq within_bounds_def date_ok_within amount_ok_within)
    show "filter (keeps_all parse s) E =
        filter (\<lambda>e. list_all (has_category e) (selectedFilterCategories s)
                      \<and> within_bounds s e) E"
      by (rule filter_cong) (simp_all add: keeps_all_def r)
    show "filter (keeps_any parse s) E =
        filter (\<lambda>e. (selectedFilterCategories s = []
                        \<or> list_ex (has_category e) (selectedFilterCategories s))
                      \<and> within_bounds s e) E"
      by (rule filter_cong) (simp_all add: keeps_any_def r)
  qed
  have i: "dates_typed s e \<Longrightarrow> on_or_after (date_text (date e)) (date_text (date e))"
    by (cases "date e") (simp_all add: dates_typed_def date_text_def on_or_after_refl)
  have j: "dates_typed s e \<and> date_text (date e) = filterStartDate s \<longrightarrow>
      on_or_after (date_text (date e)) (filterStartDate s)"
    using i by metis
  have k: "dates_typed s e \<and> date_text (date e) = filterEndDate s \<longrightarrow>
      on_or_after (filterEndDate s) (date_text (date e))"
    using i by metis
  have l: "iso_conforming parse \<and> (\<forall>x \<in> set E. dates_typed s x \<and> amounts_typed s x) \<longrightarrow>
      filteredExpenses parse s E =
        Inr (filter (\<lambda>e. list_all (has_category e) (selectedFilterCategories s)
                           \<and> within_bounds s e) E) \<and>
      filteredExpenses_any parse s E =
        Inr (filter (\<lambda>e. (selectedFilterCategories s = []
                            \<or> list_ex (has_category e) (selectedFilterCategories s))
                           \<and> within_bounds s e) E)"
    using h by (simp add: filteredExpenses_eq filteredExpenses_any_eq)
  have m: "filteredExpenses parse s E =
     Inr (filter (\<lambda>e. list_all (has_category e) (selectedFilterCategories s)
                        \<and> date_ok parse s e \<and> amount_ok s e) E)"
    by (simp add: filteredExpenses_eq a)
  have n: "filteredExpenses_any parse s E =
     Inr (filter (\<lambda>e. (selectedFilterCategories s = []
                         \<or> list_ex (has_category e) (selectedFilterCategories s))
                        \<and> date_ok parse s e \<and> amount_ok s e) E)"
    by (simp add: filteredExpenses_any_eq b)
  from m n c d f g l j k show ?thesis by (intro conjI)
qed

theorem filteredExpenses_range_rules_witness:
  "iso_conforming date_only_time \<and>
   dates_typed fifth_to_twentieth lunch \<and> amounts_typed fifth_to_twentieth lunch \<and>
   dates_typed fifth_to_twentieth taxi \<and> amounts_typed fifth_to_twentieth taxi \<and>
   dates_typed fifth_to_twentieth untagged \<and> amounts_typed fifth_to_twentieth untagged \<and>
   date_text (date lunch) = filterStartDate fifth_to_twentieth \<and>
   date_text (date taxi) = filterEndDate fifth_to_twentieth \<and>
   filteredExpenses date_only_time fifth_to_twentieth [lunch, taxi, untagged] = Inr [lunch, taxi] \<and>
   filter (\<lambda>e. list_all (has_category e) (selectedFilterCategories fifth_to_twentieth)
                  \<and> within_bounds fifth_to_twentieth e) [lunch, taxi, untagged] = [lunch, taxi] \<and>
   within_bounds fifth_to_twentieth lunch \<and> within_bounds fifth_to_twentieth taxi \<and>
   \<not> within_bounds fifth_to_twentieth untagged \<and>
   amount scribble = NaN \<and> amount_ok sixty_or_more scribble \<and>
   new_Date date_only_time (date misdated) = None \<and>
   date_ok date_only_time january_food misdated"
proof -
  have a: "iso_conforming date_only_time" by (simp add: iso_conforming_def)
  have w: "dates_typed fifth_to_twentieth lunch" "amounts_typed fifth_to_twentieth lunch"
    "dates_typed fifth_to_twentieth taxi" "amounts_typed fifth_to_twentieth taxi"
    "dates_typed fifth_to_twentieth untagged" "amounts_typed fifth_to_twentieth untagged"
    by (simp_all add: dates_typed_def amounts_typed_def calendar_date_def fifth_to_twentieth_def
        lunch_def taxi_def untagged_def sample_days sample_bounds)
  then have b: "\<forall>x \<in> set [lunch, taxi, untagged].
      dates_typed fifth_to_twentieth x \<and> amounts_typed fifth_to_twentieth x" by simp
  have c0: "selectedFilterCategories fifth_to_twentieth = []"
    by (simp add: fifth_to_twentieth_def)
  have c: "date_text (date lunch) = filterStartDate fifth_to_twentieth"
    "date_text (date taxi) = filterEndDate fifth_to_twentieth"
    by (simp_all add: date_text_def lunch_def taxi_def fifth_to_twentieth_def)
  have d: "range_test date_only_time fifth_to_twentieth lunch"
    "range_test date_only_time fifth_to_twentieth taxi"
    "\<not> range_test date_only_time fifth_to_twentieth untagged"
    by (simp_all add: range_test_def new_Date_def fifth_to_twentieth_def lunch_def taxi_def
        untagged_def sample_times sample_bounds)
  have e: "filteredExpenses date_only_time fifth_to_twentieth [lunch, taxi, untagged]
      = Inr [lunch, taxi]"
    by (simp add: filteredExpenses_eq keeps_all_def c0 d)
  note T = filteredExpenses_range_rules [where parse = date_only_time and s = fifth_to_twentieth
      and E = "[lunch, taxi, untagged]"]
  have dt: "date_ok date_only_time fifth_to_twentieth x = date_within fifth_to_twentieth x"
    if "dates_typed fifth_to_twentieth x" for x
    using T [where e = x] a that by blast
  have at: "amount_ok fifth_to_twentieth x = amount_within fifth_to_twentieth x"
    if "amounts_typed fifth_to_twentieth x" for x
    using T [where e = x] that by blast
  have f: "within_bounds fifth_to_twentieth lunch" "within_bounds fifth_to_twentieth taxi"
    "\<not> within_bounds fifth_to_twentieth untagged"
    using d by (simp_all add: range_test_eq within_bounds_def dt [symmetric] at [symmetric] w)
  let ?Q = "\<lambda>e. list_all (has_category e) (selectedFilterCategories fifth_to_twentieth)
                  \<and> within_bounds fifth_to_twentieth e"
  from T [where e = lunch] a b
  have "filteredExpenses date_only_time fifth_to_twentieth [lunch, taxi, untagged]
      = Inr (filter ?Q [lunch, taxi, untagged])"
    by blast
  with e have g: "filter ?Q [lunch, taxi, untagged] = [lunch, taxi]"
    by (metis Inr_inject)
  have "parseFloat ''abc'' = NaN" by code_simp
  then have n: "amount scribble = NaN" by (simp add: scribble_def)
  with filteredExpenses_range_rules [where s = sixty_or_more and e = scribble]
  have o: "amount_ok sixty_or_more scribble" by blast
  have "parse_date ''soon'' = None"
    by (simp add: parse_date_def all_digits_def is_digit_def)
  then have q: "new_Date date_only_time (date misdated) = None"
    by (simp add: new_Date_def misdated_def date_only_time_def)
  with filteredExpenses_range_rules [where parse = date_only_time and s = january_food
      and e = misdated]
  have r: "date_ok date_only_time january_food misdated" by blast
  from a w c e f g n o q r show ?thesis by (intro conjI)
qed

subsection \<open>Binary exponents\<close>

lemma powi_mono: "a \<le> b \<Longrightarrow> (2::rat) powi a \<le> 2 powi b"
  by (rule power_int_increasing) simp_all

lemma powi_strict_mono: "a < b \<Longrightarrow> (2::rat) powi a < 2 powi b"
  by (rule power_int_strict_increasing) simp_all

lemma powi_pos: "0 < (2::rat) powi a"
  by (rule zero_less_power_int) simp

lemma powi_less_cancel: "(2::rat) powi a < 2 powi b \<Longrightarrow> a < b"
  using powi_mono [of b a] by (cases "a < b") auto

lemma powi_succ: "(2::rat) powi (a + 1) = 2 * 2 powi a"
  by (simp add: power_int_add)

lemma bitlen_powi:
  assumes "0 < a"
  shows "(2::rat) powi (bitlen a - 1) \<le> of_int a" "of_int a < (2::rat) powi (bitlen a)"
proof -
  from bitlen_bounds [OF assms] have b: "2 ^ nat (bitlen a - 1) \<le> a" "a < 2 ^ nat (bitlen a)"
    by simp_all
  have p: "1 \<le> bitlen a" using assms bitlen_eq_zero_iff [of a] bitlen_nonneg [of a]
    by (cases "bitlen a = 0") auto
  have "(2::rat) powi (bitlen a - 1) = of_int (2 ^ nat (bitlen a - 1))"
    using p by (simp add: power_int_def)
  also have "\<dots> \<le> of_int a" using b(1) by (simp only: of_int_le_iff)
  finally show "(2::rat) powi (bitlen a - 1) \<le> of_int a" .
  have "(of_int a :: rat) < of_int (2 ^ nat (bitlen a))" using b(2) by (simp only: of_int_less_iff)
  also have "\<dots> = 2 powi (bitlen a)" using p by (simp add: power_int_def)
  finally show "of_int a < (2::rat) powi (bitlen a)" .
qed

lemma ilog2_bounds:
  assumes "0 < x"
  shows "2 powi (ilog2 x) \<le> x" "x < 2 powi (ilog2 x + 1)"
proof -
  obtain a b where ab: "quotient_of x = (a, b)" by (cases "quotient_of x")
  then have b: "0 < b" and x: "x = of_int a / of_int b"
    using quotient_of_denom_pos quotient_of_div by blast+
  have a: "0 < a" using assms b x by (simp add: zero_less_divide_iff)
  define d where "d = bitlen a - bitlen b"
  have lo: "2 powi (d - 1) < x"
  proof -
    have "(2::rat) powi (d - 1) = 2 powi (bitlen a - 1) / 2 powi (bitlen b)"
      by (simp add: d_def power_int_diff)
    also have "\<dots> \<le> of_int a / 2 powi (bitlen b)"
      using bitlen_powi(1) [OF a] powi_pos [of "bitlen b"] by (simp add: divide_right_mono)
    also have "\<dots> < of_int a / of_int b"
      using bitlen_powi(2) [OF b] a b by (simp add: divide_strict_left_mono)
    finally show ?thesis using x by simp
  qed
  have hi: "x < 2 powi (d + 1)"
  proof -
    have "x = of_int a / of_int b" by (rule x)
    also have "\<dots> < 2 powi (bitlen a) / of_int b"
      using bitlen_powi(2) [OF a] b by (simp add: divide_strict_right_mono)
    also have "\<dots> \<le> 2 powi (bitlen a) / 2 powi (bitlen b - 1)"
    proof (rule divide_left_mono)
      show "2 powi (bitlen b - 1) \<le> rat_of_int b" by (rule bitlen_powi(1) [OF b])
      show "0 \<le> (2::rat) powi bitlen a" using powi_pos [of "bitlen a"] by simp
      have "0 < rat_of_int b" using b by simp
      then show "0 < rat_of_int b * 2 powi (bitlen b - 1)"
        using powi_pos [of "bitlen b - 1"] by (rule mult_pos_pos)
    qed
    also have "\<dots> = 2 powi (bitlen a - (bitlen b - 1))"
      by (rule power_int_diff [symmetric]) simp
    also have "bitlen a - (bitlen b - 1) = d + 1"
      by (simp add: d_def)
    finally show ?thesis .
  qed
  have e: "ilog2 x = (if 2 powi d \<le> x then d else d - 1)"
    by (simp add: ilog2_def ab d_def Let_def)
  show "2 powi (ilog2 x) \<le> x" using lo by (simp add: e)
  show "x < 2 powi (ilog2 x + 1)" using hi by (simp add: e)
qed

lemma ilog2_unique:
  assumes "2 powi e \<le> x" "x < 2 powi (e + 1)"
  shows "ilog2 x = e"
proof -
  have pos: "0 < x" using assms(1) powi_pos [of e] by (rule less_le_trans [rotated])
  from ilog2_bounds [OF pos] assms
  have "(2::rat) powi e < 2 powi (ilog2 x + 1)" "(2::rat) powi (ilog2 x) < 2 powi (e + 1)"
    by simp_all
  then have "e < ilog2 x + 1" "ilog2 x < e + 1"
    by (simp_all only: powi_less_cancel)
  then show ?thesis by simp
qed

lemma ilog2_mono:
  assumes "0 < x" "x \<le> y"
  shows "ilog2 x \<le> ilog2 y"
proof -
  have "0 < y" using assms by simp
  from ilog2_bounds(1) [OF assms(1)] ilog2_bounds(2) [OF this] assms(2)
  have "(2::rat) powi (ilog2 x) < 2 powi (ilog2 y + 1)" by simp
  then have "ilog2 x < ilog2 y + 1" by (rule powi_less_cancel)
  then show ?thesis by simp
qed

lemma ilog2_powi: "ilog2 (2 powi e) = e"
  by (rule ilog2_unique) (simp_all add: powi_strict_mono)

lemma ilog2_ge_iff:
  assumes "0 < x"
  shows "(k \<le> ilog2 x) = (2 powi k \<le> x)"
proof
  assume "k \<le> ilog2 x"
  then have "(2::rat) powi k \<le> 2 powi (ilog2 x)" by (rule powi_mono)
  with ilog2_bounds(1) [OF assms] show "2 powi k \<le> x" by simp
next
  assume "2 powi k \<le> x"
  with ilog2_bounds(2) [OF assms] have "(2::rat) powi k < 2 powi (ilog2 x + 1)" by simp
  then have "k < ilog2 x + 1" by (rule powi_less_cancel)
  then show "k \<le> ilog2 x" by simp
qed

subsection \<open>Rounding is monotone and idempotent\<close>

lemma rnd_grid: "rnd x = (if x = 0 then 0 else grid (quantum x) x)"
  by (simp add: rnd_def grid_def)

lemma round_half_even_of_int: "round_half_even (of_int k) = k"
  by (simp add: round_half_even_def)

lemma round_half_even_range:
  "\<lfloor>x\<rfloor> \<le> round_half_even x" "round_half_even x \<le> \<lfloor>x\<rfloor> + 1"
  by (simp_all add: round_half_even_def Let_def)

lemma round_half_even_mono:
  assumes "x \<le> y"
  shows "round_half_even x \<le> round_half_even y"
proof (cases "\<lfloor>x\<rfloor> = \<lfloor>y\<rfloor>")
  case True
  then have "x - of_int \<lfloor>x\<rfloor> \<le> y - of_int \<lfloor>y\<rfloor>" using assms by simp
  then show ?thesis
    unfolding round_half_even_def Let_def True by auto
next
  case False
  with assms have "\<lfloor>x\<rfloor> < \<lfloor>y\<rfloor>" using floor_mono [of x y] by linarith
  with round_half_even_range(2) [of x] round_half_even_range(1) [of y]
  show ?thesis by linarith
qed

lemma round_half_even_minus: "round_half_even (- x) = - round_half_even x"
proof (cases "x \<in> \<int>")
  case True
  then obtain k where "x = of_int k" by (auto elim: Ints_cases)
  then have "round_half_even x = k" "round_half_even (- x) = - k"
    using round_half_even_of_int [of k] round_half_even_of_int [of "- k"] by simp_all
  then show ?thesis by simp
next
  case False
  define f where "f = \<lfloor>x\<rfloor>"
  define r where "r = x - of_int f"
  have ne: "x \<noteq> of_int \<lfloor>x\<rfloor>"
    using False by (metis Ints_of_int)
  have fl: "\<lfloor>- x\<rfloor> = - f - 1"
    using ne unfolding f_def by (simp add: floor_minus ceiling_altdef)
  have r': "- x - of_int (- f - 1) = 1 - r" by (simp add: r_def)
  have ev: "even (- f - 1) = odd f" by simp
  have "round_half_even x =
      (if r < 1 / 2 then f else if 1 / 2 < r then f + 1 else if even f then f else f + 1)"
    by (simp add: round_half_even_def Let_def f_def r_def)
  moreover have "round_half_even (- x) =
      (if 1 - r < 1 / 2 then - f - 1 else if 1 / 2 < 1 - r then - f
       else if odd f then - f - 1 else - f)"
    unfolding round_half_even_def Let_def fl r' ev by simp
  ultimately show ?thesis by auto
qed

lemma grid_mono: "x \<le> y \<Longrightarrow> grid q x \<le> grid q y"
  unfolding grid_def
  by (intro mult_right_mono) (simp_all add: round_half_even_mono divide_right_mono powi_pos less_imp_le)

lemma grid_fix: "grid q (of_int k * 2 powi q) = of_int k * 2 powi q"
  using powi_pos [of q] by (simp add: grid_def round_half_even_of_int)

lemma grid_minus: "grid q (- x) = - grid q x"
  by (simp add: grid_def round_half_even_minus)

lemma grid_zero: "grid q 0 = 0"
  by (simp add: grid_def round_half_even_def)

lemma powi_multiple:
  assumes "q \<le> e"
  shows "(2::rat) powi e = of_int (2 ^ nat (e - q)) * 2 powi q"
proof -
  have "(2::rat) powi e = 2 powi ((e - q) + q)" by simp
  also have "\<dots> = 2 powi (e - q) * 2 powi q" by (rule power_int_add) simp
  also have "(2::rat) powi (e - q) = of_int (2 ^ nat (e - q))"
    using assms by (simp add: power_int_def)
  finally show ?thesis .
qed

lemma grid_fix_powi: "q \<le> e \<Longrightarrow> grid q (2 powi e) = 2 powi e"
  using grid_fix [of q "2 ^ nat (e - q)"] powi_multiple [of q e] by simp

lemma quantum_minus: "quantum (- x) = quantum x"
  by (simp add: quantum_def)

lemma rnd_minus: "rnd (- x) = - rnd x"
  by (simp add: rnd_grid quantum_minus grid_minus)

lemma rnd_nonneg: "0 \<le> x \<Longrightarrow> 0 \<le> rnd x"
  using grid_mono [of 0 x "quantum x"] by (simp add: rnd_grid grid_zero)

lemma rnd_mono_pos:
  assumes "0 < x" "x \<le> y"
  shows "rnd x \<le> rnd y"
proof -
  have y: "0 < y" using assms by simp
  have e: "ilog2 x \<le> ilog2 y" using assms by (rule ilog2_mono)
  have ax: "\<bar>x\<bar> = x" "\<bar>y\<bar> = y" using assms y by simp_all
  have r: "rnd x = grid (quantum x) x" "rnd y = grid (quantum y) y"
    using assms y by (simp_all add: rnd_grid)
  have qle: "quantum x \<le> quantum y" using e by (simp add: quantum_def ax)
  show ?thesis
  proof (cases "quantum x = quantum y")
    case True
    then show ?thesis using assms(2) by (simp add: r grid_mono)
  next
    case False
    with qle have lt: "quantum x < quantum y" by simp
    then have ey: "ilog2 x + 1 \<le> ilog2 y" and qy: "quantum y \<le> ilog2 y"
      by (simp_all add: quantum_def ax max_def split: if_splits)
    define B :: rat where "B = 2 powi (ilog2 y)"
    have "x < 2 powi (ilog2 x + 1)" using assms(1) by (rule ilog2_bounds(2))
    also have "\<dots> \<le> B" unfolding B_def using ey by (rule powi_mono)
    finally have xB: "x \<le> B" by simp
    have By: "B \<le> y" unfolding B_def using y by (rule ilog2_bounds(1))
    have "rnd x \<le> grid (quantum x) B" unfolding r using xB by (rule grid_mono)
    also have "\<dots> = B" unfolding B_def using lt qy by (intro grid_fix_powi) simp
    also have "\<dots> = grid (quantum y) B" unfolding B_def using qy by (simp add: grid_fix_powi)
    also have "\<dots> \<le> rnd y" unfolding r using By by (rule grid_mono)
    finally show ?thesis .
  qed
qed

lemma rnd_mono:
  assumes "x \<le> y"
  shows "rnd x \<le> rnd y"
proof -
  consider "0 < x" | "y < 0" | "x \<le> 0" "0 \<le> y" by linarith
  then show ?thesis
  proof cases
    case 1
    then show ?thesis using assms by (rule rnd_mono_pos)
  next
    case 2
    then have "0 < - y" "- y \<le> - x" using assms by simp_all
    then have "rnd (- y) \<le> rnd (- x)" by (rule rnd_mono_pos)
    then show ?thesis by (simp add: rnd_minus)
  next
    case 3
    from 3(1) have "0 \<le> rnd (- x)" by (intro rnd_nonneg) simp
    then have "rnd x \<le> 0" by (simp add: rnd_minus)
    also have "0 \<le> rnd y" using 3(2) by (rule rnd_nonneg)
    finally show ?thesis .
  qed
qed

lemma grid_multiple:
  assumes "q' \<le> q"
  shows "grid q' (of_int k * 2 powi q) = of_int k * 2 powi q"
proof -
  have "of_int k * (2::rat) powi q = of_int k * (of_int (2 ^ nat (q - q')) * 2 powi q')"
    using powi_multiple [OF assms] by simp
  also have "\<dots> = of_int (k * 2 ^ nat (q - q')) * 2 powi q'" by simp
  finally have e: "of_int k * (2::rat) powi q = of_int (k * 2 ^ nat (q - q')) * 2 powi q'" .
  show ?thesis unfolding e by (rule grid_fix)
qed

lemma rnd_0: "rnd 0 = 0"
  by (simp add: rnd_def)

lemma rnd_idem_pos:
  assumes "0 < x"
  shows "rnd (rnd x) = rnd x"
proof -
  define q where "q = quantum x"
  define e where "e = ilog2 x"
  define k where "k = round_half_even (x / 2 powi q)"
  define y where "y = rnd x"
  have y: "y = of_int k * 2 powi q"
    using assms by (simp add: y_def rnd_grid grid_def k_def q_def)
  have q: "q = max (e - 52) (- 1074)" using assms by (simp add: q_def e_def quantum_def)
  have y0: "0 \<le> y" unfolding y_def using assms by (intro rnd_nonneg) simp
  show ?thesis
  proof (cases "y = 0")
    case True
    then show ?thesis unfolding y_def [symmetric] by (simp add: rnd_def)
  next
    case False
    with y0 have ypos: "0 < y" by simp
    have goal: "grid (quantum y) y = y" if "quantum y \<le> q"
    proof -
      from grid_multiple [OF that, of k] show ?thesis by (simp only: y [symmetric])
    qed
    have "grid (quantum y) y = y"
    proof (cases "ilog2 y \<le> e")
      case True
      then have "quantum y \<le> q" using ypos by (simp add: quantum_def q)
      then show ?thesis by (rule goal)
    next
      case hi: False
      then have "e + 1 \<le> ilog2 y" by simp
      then have ylow: "2 powi (e + 1) \<le> y" using ypos by (simp add: ilog2_ge_iff)
      have xhi: "x \<le> 2 powi (e + 1)"
        using ilog2_bounds(2) [OF assms] by (simp add: e_def)
      show ?thesis
      proof (cases "q \<le> e + 1")
        case True
        have "y = grid q x" using assms by (simp add: y_def rnd_grid q_def)
        also have "\<dots> \<le> grid q (2 powi (e + 1))" using xhi by (rule grid_mono)
        also have "\<dots> = 2 powi (e + 1)" using True by (rule grid_fix_powi)
        finally have yeq: "y = 2 powi (e + 1)" using ylow by simp
        then have "ilog2 y = e + 1" by (simp add: ilog2_powi)
        then have qy: "quantum y \<le> e + 1" using True ypos by (simp add: quantum_def q)
        show ?thesis unfolding yeq using qy [unfolded yeq] by (rule grid_fix_powi)
      next
        case False
        then have qv: "q = - 1074" and small: "e + 1 < q" by (simp_all add: q)
        have "x < 2 powi q" using xhi powi_strict_mono [OF small] by simp
        then have "x / 2 powi q \<le> 1" using powi_pos [of q] by (simp add: divide_le_eq)
        then have "k \<le> round_half_even 1" unfolding k_def by (rule round_half_even_mono)
        then have k1: "k \<le> 1" using round_half_even_of_int [of 1] by simp
        have "0 < k" using ypos powi_pos [of q] unfolding y by (simp add: zero_less_mult_iff)
        with k1 have "k = 1" by simp
        then have yq: "y = 2 powi q" by (simp add: y)
        have "\<bar>y\<bar> = 2 powi q" using ypos yq by simp
        then have "ilog2 \<bar>y\<bar> = q" by (simp only: ilog2_powi)
        then have "quantum y \<le> q" unfolding quantum_def using qv by simp
        then show ?thesis by (rule goal)
      qed
    qed
    then show ?thesis unfolding y_def [symmetric] using False by (simp add: rnd_grid)
  qed
qed

lemma rnd_idem: "rnd (rnd x) = rnd x"
proof -
  consider "0 < x" | "x = 0" | "0 < - x" by linarith
  then show ?thesis
  proof cases
    case 1
    then show ?thesis by (rule rnd_idem_pos)
  next
    case 2
    then show ?thesis by (simp add: rnd_def)
  next
    case 3
    then have "rnd (rnd (- x)) = rnd (- x)" by (rule rnd_idem_pos)
    then show ?thesis by (simp add: rnd_minus)
  qed
qed

lemma is_double_0: "is_double 0"
  by (simp add: is_double_def rnd_def)

lemma fl_double: "is_double x \<Longrightarrow> fl x = Finite x"
  by (auto simp: is_double_def fl_def)

lemma fl_Finite_double: "fl x = Finite y \<Longrightarrow> is_double y \<and> y = rnd x"
  by (auto simp: fl_def is_double_def Let_def rnd_idem rnd_0 split: if_splits)

lemma overflow_iff:
  assumes "y \<noteq> 0"
  shows "(1023 < ilog2 \<bar>y\<bar>) = (2 powi 1024 \<le> \<bar>y\<bar>)"
proof -
  have "0 < \<bar>y\<bar>" using assms by simp
  from ilog2_ge_iff [OF this, of 1024] show ?thesis by linarith
qed

lemma fl_cases:
  "fl x = (if 2 powi 1024 \<le> rnd x then PosInfinity
           else if rnd x \<le> - (2 powi 1024) then NegInfinity else Finite (rnd x))"
proof (cases "rnd x = 0")
  case True
  then show ?thesis using powi_pos [of 1024] by (simp add: fl_def)
next
  case False
  have p: "0 < (2::rat) powi 1024" by (rule powi_pos)
  show ?thesis
    unfolding fl_def Let_def overflow_iff [OF False] using False p
    by (auto simp: abs_if split: if_splits)
qed

lemma fl_mono: "x \<le> y \<Longrightarrow> num_le (fl x) (fl y)"
  using rnd_mono [of x y] powi_pos [of 1024] by (auto simp: fl_cases)

lemma is_double_of_int:
  assumes "\<bar>n\<bar> < 2 ^ 53"
  shows "is_double (of_int n)"
proof (cases "n = 0")
  case True
  then show ?thesis by (simp add: is_double_0)
next
  case False
  define x :: rat where "x = of_int n"
  have x0: "x \<noteq> 0" "0 < \<bar>x\<bar>" using False by (simp_all add: x_def)
  have "\<bar>x\<bar> = of_int \<bar>n\<bar>" by (simp add: x_def)
  also have "\<dots> < of_int (2 ^ 53)" using assms by (simp only: of_int_less_iff)
  also have "\<dots> = 2 powi 53" by simp
  finally have "\<not> 2 powi 53 \<le> \<bar>x\<bar>" by simp
  then have e: "ilog2 \<bar>x\<bar> \<le> 52" using ilog2_ge_iff [OF x0(2), of 53] by simp
  then have q: "quantum x \<le> 0" by (simp add: quantum_def)
  have "grid (quantum x) (of_int n * 2 powi 0) = of_int n * 2 powi 0"
    using q by (rule grid_multiple)
  then have "rnd x = x" using x0 by (simp add: rnd_grid x_def)
  then show ?thesis using e unfolding x_def [symmetric] by (simp add: is_double_def)
qed

subsection \<open>The total\<close>

lemma num_le_trans: "num_le a b \<Longrightarrow> num_le b c \<Longrightarrow> num_le a c"
  by (cases a; cases b; cases c) auto

lemma num_le_refl: "a \<noteq> NaN \<Longrightarrow> num_le a a"
  by (cases a) auto

lemma fl_nonneg:
  assumes "0 \<le> x"
  shows "sum_ok (fl x)"
proof (cases "fl x")
  case (Finite y)
  then have "is_double y" "y = rnd x" using fl_Finite_double by blast+
  with assms rnd_nonneg [of x] Finite show ?thesis by (simp add: sum_ok_def)
next
  case PosInfinity
  then show ?thesis by (simp add: sum_ok_def)
next
  case NegInfinity
  then have "rnd x \<le> - (2 powi 1024)" by (simp add: fl_cases split: if_splits)
  with rnd_nonneg [OF assms] powi_pos [of 1024] show ?thesis by linarith
next
  case NaN
  then show ?thesis by (simp add: fl_cases split: if_splits)
qed

lemma sum_ok_cases:
  assumes "sum_ok a"
  obtains p where "a = Finite p" "is_double p" "0 \<le> p" | "a = PosInfinity"
  using assms by (cases a) (simp_all add: sum_ok_def)

lemma nonneg_cases:
  assumes "num_le (Finite 0) b"
  obtains q where "b = Finite q" "0 \<le> q" | "b = PosInfinity"
  using assms by (cases b) simp_all

lemma fl_not_NaN: "fl x \<noteq> NaN"
  by (simp add: fl_cases)

lemma num_le_PosInfinity: "a \<noteq> NaN \<Longrightarrow> num_le a PosInfinity"
  by (cases a) simp_all

lemma add_keeps:
  assumes "sum_ok a" "num_le (Finite 0) b"
  shows "sum_ok (num_add a b)"
  using assms(1)
proof (cases rule: sum_ok_cases)
  case a: (1 p)
  from assms(2) show ?thesis
  proof (cases rule: nonneg_cases)
    case (1 q)
    with a have "0 \<le> p + q" by simp
    then show ?thesis unfolding a 1 by (simp add: fl_nonneg)
  next
    case 2
    then show ?thesis by (simp add: a sum_ok_def)
  qed
next
  case a: 2
  from assms(2) show ?thesis
    by (cases rule: nonneg_cases) (simp_all add: a sum_ok_def)
qed

lemma add_mono:
  assumes "sum_ok a1" "sum_ok a2" "num_le a1 a2" "num_le (Finite 0) b"
  shows "num_le (num_add a1 b) (num_add a2 b)"
  using assms(4)
proof (cases rule: nonneg_cases)
  case b: (1 q)
  from assms(1) show ?thesis
  proof (cases rule: sum_ok_cases)
    case a1: (1 p1)
    from assms(2) show ?thesis
    proof (cases rule: sum_ok_cases)
      case a2: (1 p2)
      with assms(3) a1 have "p1 + q \<le> p2 + q" by simp
      then show ?thesis unfolding a1 a2 b by (simp add: fl_mono)
    next
      case 2
      then show ?thesis unfolding a1 b by (simp add: num_le_PosInfinity fl_not_NaN)
    qed
  next
    case a1: 2
    from assms(2) show ?thesis
    proof (cases rule: sum_ok_cases)
      case (1 p2)
      with assms(3) a1 show ?thesis by simp
    next
      case 2
      then show ?thesis by (simp add: a1 b)
    qed
  qed
next
  case b: 2
  from assms(1) show ?thesis
  proof (cases rule: sum_ok_cases)
    case a1: (1 p1)
    from assms(2) show ?thesis
      by (cases rule: sum_ok_cases) (simp_all add: a1 b)
  next
    case a1: 2
    from assms(2) show ?thesis
      by (cases rule: sum_ok_cases) (simp_all add: a1 b)
  qed
qed

lemma add_increases:
  assumes "sum_ok a" "num_le (Finite 0) b"
  shows "num_le a (num_add a b)"
  using assms(1)
proof (cases rule: sum_ok_cases)
  case a: (1 p)
  from assms(2) show ?thesis
  proof (cases rule: nonneg_cases)
    case (1 q)
    then have "p \<le> p + q" by simp
    then have "num_le (fl p) (fl (p + q))" by (rule fl_mono)
    then show ?thesis unfolding a 1 using a(2) by (simp add: fl_double)
  next
    case 2
    then show ?thesis by (simp add: a)
  qed
next
  case a: 2
  from assms(2) show ?thesis
    by (cases rule: nonneg_cases) (simp_all add: a)
qed

lemma total_filter_le:
  assumes "\<forall>e \<in> set E. num_le (Finite 0) (amount e)" "sum_ok a1" "sum_ok a2" "num_le a1 a2"
  shows "num_le (foldl (\<lambda>sum exp. num_add sum (amount exp)) a1 (filter P E))
                (foldl (\<lambda>sum exp. num_add sum (amount exp)) a2 E)"
  using assms
proof (induction E arbitrary: a1 a2)
  case Nil
  then show ?case by simp
next
  case (Cons x E)
  then have x: "num_le (Finite 0) (amount x)" and E: "\<forall>e \<in> set E. num_le (Finite 0) (amount e)"
    by simp_all
  have k2: "sum_ok (num_add a2 (amount x))" using Cons.prems(3) x by (rule add_keeps)
  show ?case
  proof (cases "P x")
    case True
    have "sum_ok (num_add a1 (amount x))" using Cons.prems(2) x by (rule add_keeps)
    moreover have "num_le (num_add a1 (amount x)) (num_add a2 (amount x))"
      using Cons.prems(2,3,4) x by (rule add_mono)
    ultimately show ?thesis using True Cons.IH [OF E _ k2] by simp
  next
    case False
    have "num_le a2 (num_add a2 (amount x))" using Cons.prems(3) x by (rule add_increases)
    with Cons.prems(4) have "num_le a1 (num_add a2 (amount x))" by (rule num_le_trans)
    with False Cons.IH [OF E Cons.prems(2) k2] show ?thesis by simp
  qed
qed

lemma sum_ok_0: "sum_ok (Finite 0)"
  by (simp add: sum_ok_def is_double_0)

lemma totalAmount_filter_le:
  assumes "\<forall>e \<in> set E. num_le (Finite 0) (amount e)"
  shows "num_le (totalAmount (filter P E)) (totalAmount E)"
  unfolding totalAmount_def using assms sum_ok_0 sum_ok_0
  by (rule total_filter_le) simp

lemma totalAmount_snoc: "totalAmount (E @ [e]) = num_add (totalAmount E) (amount e)"
  by (simp add: totalAmount_def)

lemma exact_sum_snoc: "exact_sum (E @ [e]) = exact_sum E + amount_value e"
  by (simp add: exact_sum_def)

lemma totalAmount_exact:
  assumes "\<forall>e \<in> set E. \<exists>q. amount e = Finite q"
    and "\<forall>n \<le> length E. is_double (exact_sum (take n E))"
  shows "totalAmount E = Finite (exact_sum E)"
  using assms
proof (induction E rule: rev_induct)
  case Nil
  then show ?case by (simp add: totalAmount_def exact_sum_def)
next
  case (snoc e E)
  from snoc.prems(1) obtain q where q: "amount e = Finite q" by auto
  have "\<forall>n \<le> length E. is_double (exact_sum (take n E))"
  proof (intro allI impI)
    fix n assume n: "n \<le> length E"
    then have t: "take n (E @ [e]) = take n E" and "n \<le> length (E @ [e])" by simp_all
    from snoc.prems(2) [rule_format, OF this(2)]
    show "is_double (exact_sum (take n E))" unfolding t .
  qed
  with snoc have IH: "totalAmount E = Finite (exact_sum E)" by simp
  have "is_double (exact_sum (take (length (E @ [e])) (E @ [e])))"
    by (rule snoc.prems(2) [rule_format]) simp
  then have "is_double (exact_sum (E @ [e]))" by (simp only: take_all order_refl)
  then have d: "is_double (exact_sum E + q)"
    by (simp add: exact_sum_snoc amount_value_def q)
  show ?case
    by (simp add: totalAmount_snoc IH q exact_sum_snoc amount_value_def fl_double [OF d])
qed

lemma whole_sum:
  assumes "\<forall>e \<in> set E. \<exists>k. 0 \<le> k \<and> amount e = Finite (of_int k)"
  shows "\<exists>m. 0 \<le> m \<and> exact_sum E = of_int m"
  using assms
proof (induction E)
  case Nil
  then show ?case by (simp add: exact_sum_def)
next
  case (Cons e E)
  then obtain m where m: "0 \<le> m" "exact_sum E = of_int m" by auto
  from Cons.prems obtain k where k: "0 \<le> k" "amount e = Finite (of_int k)" by auto
  have "exact_sum (e # E) = of_int (k + m)" using m k by (simp add: exact_sum_def amount_value_def)
  moreover have "0 \<le> k + m" using m k by simp
  ultimately show ?case by blast
qed

lemma whole_prefix_le:
  assumes "\<forall>e \<in> set E. \<exists>k. 0 \<le> k \<and> amount e = Finite (of_int k)"
  shows "exact_sum (take n E) \<le> exact_sum E"
proof -
  have w: "\<forall>e \<in> set (drop n E). \<exists>k. 0 \<le> k \<and> amount e = Finite (of_int k)"
    using assms by (meson in_set_dropD)
  from whole_sum [OF w] have "0 \<le> exact_sum (drop n E)" by auto
  moreover have "exact_sum E = exact_sum (take n E) + exact_sum (drop n E)"
    unfolding exact_sum_def by (metis append_take_drop_id map_append sum_list_append)
  ultimately show ?thesis by simp
qed

lemma totalAmount_whole:
  assumes "\<forall>e \<in> set E. \<exists>k. 0 \<le> k \<and> amount e = Finite (of_int k)"
    and "exact_sum E < 2 ^ 53"
  shows "totalAmount E = Finite (exact_sum E)"
proof (rule totalAmount_exact)
  show "\<forall>e \<in> set E. \<exists>q. amount e = Finite q" using assms(1) by blast
  show "\<forall>n \<le> length E. is_double (exact_sum (take n E))"
  proof (intro allI impI)
    fix n
    have w: "\<forall>e \<in> set (take n E). \<exists>k. 0 \<le> k \<and> amount e = Finite (of_int k)"
      using assms(1) by (meson in_set_takeD)
    from whole_sum [OF w] obtain m where m: "0 \<le> m" "exact_sum (take n E) = of_int m" by auto
    have "(of_int m :: rat) < of_int (2 ^ 53)"
      using whole_prefix_le [OF assms(1), of n] assms(2) m by simp
    then have "m < 2 ^ 53" by (simp only: of_int_less_iff)
    with m(1) have "\<bar>m\<bar> < 2 ^ 53" by simp
    then show "is_double (exact_sum (take n E))" unfolding m(2) by (rule is_double_of_int)
  qed
qed

text \<open>
  Claim C7. When every amount of the expense array is non-negative, the total of
  the filtered array is at most the total of the whole array, in the order of
  Numbers (\<^verbatim>\<open><=\<close>): rounding to nearest is monotone, so leaving out
  non-negative terms cannot raise the rounded sum.
\<close>

theorem totalAmount_filtered_le:
  assumes "\<forall>e \<in> set E. num_le (Finite 0) (amount e)"
  shows "(\<exists>R. filteredExpenses parse s E = Inr R \<and> num_le (totalAmount R) (totalAmount E)) \<and>
         (\<exists>R. filteredExpenses_any parse s E = Inr R \<and> num_le (totalAmount R) (totalAmount E))"
  using assms by (simp add: filteredExpenses_eq filteredExpenses_any_eq totalAmount_filter_le)

theorem totalAmount_filtered_le_witness:
  "num_le (Finite 0) (amount lunch) \<and> num_le (Finite 0) (amount taxi) \<and>
   num_le (Finite 0) (amount untagged) \<and>
   filteredExpenses date_only_time january_food [lunch, taxi, untagged] = Inr [lunch] \<and>
   totalAmount [lunch] = Finite 100 \<and> totalAmount [lunch, taxi, untagged] = Finite 157 \<and>
   num_le (totalAmount [lunch]) (totalAmount [lunch, taxi, untagged])"
proof -
  have n: "num_le (Finite 0) (amount lunch)" "num_le (Finite 0) (amount taxi)"
    "num_le (Finite 0) (amount untagged)"
    by (simp_all add: lunch_def taxi_def untagged_def)
  then have a: "\<forall>e \<in> set [lunch, taxi, untagged]. num_le (Finite 0) (amount e)" by simp
  have b: "filteredExpenses date_only_time january_food [lunch, taxi, untagged] = Inr [lunch]"
    by (simp add: filteredExpenses_eq keeps_all_def has_category_def range_test_def new_Date_def
        january_food_def lunch_def taxi_def untagged_def sample_times)
  have c: "totalAmount [lunch] = Finite 100" "totalAmount [lunch, taxi, untagged] = Finite 157"
    by code_simp+
  from totalAmount_filtered_le [OF a, where parse = date_only_time and s = january_food] n b c show ?thesis by simp
qed

text \<open>
  Claim C6, as stated, fails: the total is computed with \<^verbatim>\<open>+\<close> on Numbers,
  which rounds each partial sum to a double. For the amounts 0.1 and 0.2 as
  \<^verbatim>\<open>parseFloat\<close> stores them, the total is neither the exact sum of the two
  stored amounts nor 3/10; it is the double printed as 0.30000000000000004.
\<close>

theorem totalAmount_not_exact:
  "totalAmount [coffee, tea] \<noteq> Finite (exact_sum [coffee, tea]) \<and>
   totalAmount [coffee, tea] \<noteq> Finite (3 / 10) \<and>
   totalAmount [coffee, tea] = Finite (1351079888211149 / 4503599627370496)"
proof -
  have a: "amount coffee = Finite (3602879701896397 / 36028797018963968)"
    "amount tea = Finite (3602879701896397 / 18014398509481984)"
    by (simp_all add: coffee_def tea_def sample_amounts)
  have "totalAmount [coffee, tea] = num_add (num_add (Finite 0) (amount coffee)) (amount tea)"
    by (simp add: totalAmount_def)
  also have "\<dots> = num_add (num_add (Finite 0) (Finite (3602879701896397 / 36028797018963968)))
      (Finite (3602879701896397 / 18014398509481984))"
    by (simp only: a)
  also have "\<dots> = Finite (1351079888211149 / 4503599627370496)"
    by code_simp
  finally have t: "totalAmount [coffee, tea] = Finite (1351079888211149 / 4503599627370496)" .
  have e: "exact_sum [coffee, tea] = 10808639105689191 / 36028797018963968"
    by (simp add: exact_sum_def amount_value_def a)
  show ?thesis unfolding t e by simp
qed

text \<open>
  Claim C6, amended. The total is the left-to-right sum of the amounts in
  double arithmetic, started from 0, each addition rounded to nearest. It is the
  exact arithmetic sum whenever the amounts are finite and every partial sum is
  a double, in particular for non-negative whole amounts whose sum is below
  \<open>2^53\<close>. The total of no expense is 0.
\<close>

theorem totalAmount_rounded_sum:
  "totalAmount [] = Finite 0 \<and>
   totalAmount (E @ [e]) = num_add (totalAmount E) (amount e) \<and>
   ((\<forall>e \<in> set E. \<exists>q. amount e = Finite q) \<and>
    (\<forall>n \<le> length E. is_double (exact_sum (take n E)))
      \<longrightarrow> totalAmount E = Finite (exact_sum E)) \<and>
   ((\<forall>e \<in> set E. \<exists>k. 0 \<le> k \<and> amount e = Finite (of_int k)) \<and> exact_sum E < 2 ^ 53
      \<longrightarrow> totalAmount E = Finite (exact_sum E))"
  using totalAmount_exact [of E] totalAmount_whole [of E]
  by (simp add: totalAmount_snoc) (simp add: totalAmount_def)

theorem totalAmount_rounded_sum_witness:
  "amount lunch = Finite (of_int 100) \<and> amount taxi = Finite (of_int 50) \<and>
   exact_sum [lunch, taxi] < 2 ^ 53 \<and>
   totalAmount [lunch, taxi] = Finite 150 \<and> exact_sum [lunch, taxi] = 150"
proof -
  have w: "amount lunch = Finite (of_int 100)" "amount taxi = Finite (of_int 50)"
    by (simp_all add: lunch_def taxi_def)
  then have a: "\<forall>e \<in> set [lunch, taxi]. \<exists>k. 0 \<le> k \<and> amount e = Finite (of_int k)"
    by (metis zero_le_numeral set_ConsD empty_iff empty_set)
  have b: "exact_sum [lunch, taxi] = 150"
    by (simp add: exact_sum_def amount_value_def lunch_def taxi_def)
  from totalAmount_rounded_sum [of "[lunch, taxi]"] a b w show ?thesis by simp
qed

subsection \<open>The initial filter state\<close>

text \<open>
  The calendar functions are each other's inverses: \<open>YearFromDay\<close> is the year
  that contains the day, and year, month and day of a time value form an existing
  day whose day number is that of the time value.
\<close>

lemma DayFromYear_bounds:
  "400 * DayFromYear z \<le> 146097 * (z - 1970) + 589"
  "146097 * (z - 1970) - 506 \<le> 400 * DayFromYear z"
proof -
  define a b c where "a = (z - 1969) div 4" and "b = (z - 1901) div 100"
    and "c = (z - 1601) div 400"
  have a: "4 * a \<le> z - 1969" "z - 1969 - 3 \<le> 4 * a"
    unfolding a_def using div_bracket [of 4 "z - 1969"] by simp_all
  have b: "100 * b \<le> z - 1901" "z - 1901 - 99 \<le> 100 * b"
    unfolding b_def using div_bracket [of 100 "z - 1901"] by simp_all
  have c: "400 * c \<le> z - 1601" "z - 1601 - 399 \<le> 400 * c"
    unfolding c_def using div_bracket [of 400 "z - 1601"] by simp_all
  have F: "DayFromYear z = 365 * (z - 1970) + a - b + c"
    by (simp add: DayFromYear_def a_def b_def c_def)
  have a': "400 * a \<le> 100 * (z - 1969)" "100 * (z - 1969 - 3) \<le> 400 * a"
    using a by simp_all
  have b': "400 * b \<le> 4 * (z - 1901)" "4 * (z - 1901 - 99) \<le> 400 * b"
    using b by simp_all
  have G: "400 * DayFromYear z = 146000 * (z - 1970) + 400 * a - 400 * b + 400 * c"
    unfolding F by (simp add: algebra_simps)
  show "400 * DayFromYear z \<le> 146097 * (z - 1970) + 589"
    unfolding G using a' b' c by (simp add: algebra_simps)
  show "146097 * (z - 1970) - 506 \<le> 400 * DayFromYear z"
    unfolding G using a' b' c by (simp add: algebra_simps)
qed

lemma YearFromDay_correct:
  "DayFromYear (YearFromDay d) \<le> d" "d < DayFromYear (YearFromDay d + 1)"
proof -
  define n where "n = (400 * d) div 146097"
  define y where "y = 1970 + n"
  have n: "146097 * n \<le> 400 * d" "400 * d - 146096 \<le> 146097 * n"
    unfolding n_def using div_bracket [of 146097 "400 * d"] by simp_all
  have lo: "DayFromYear (y - 1) \<le> d"
    using DayFromYear_bounds(1) [of "y - 1"] n by (simp add: y_def)
  have hi: "d < DayFromYear (y + 2)"
    using DayFromYear_bounds(2) [of "y + 2"] n by (simp add: y_def)
  have e: "YearFromDay d =
      (if DayFromYear (y + 1) \<le> d then y + 1 else if DayFromYear y \<le> d then y else y - 1)"
    by (simp add: YearFromDay_def Let_def y_def n_def)
  have s: "y + 1 + 1 = y + 2" "y - 1 + 1 = y" by simp_all
  show "DayFromYear (YearFromDay d) \<le> d" using lo by (simp add: e)
  show "d < DayFromYear (YearFromDay d + 1)" using hi by (simp add: e s)
qed

lemma DayWithinYear_range:
  "0 \<le> DayWithinYear t" "DayWithinYear t < (if InLeapYear (YearFromTime t) then 366 else 365)"
  using YearFromDay_correct [of "Day t"] DayFromYear_next [of "YearFromTime t"]
  by (simp_all add: DayWithinYear_def YearFromTime_def split: if_splits)

lemma DaysBeforeMonth_table:
  "DaysBeforeMonth y 1 = 0" "DaysBeforeMonth y 2 = 31"
  "DaysBeforeMonth y 3 = 59 + (if InLeapYear y then 1 else 0)"
  "DaysBeforeMonth y 4 = 90 + (if InLeapYear y then 1 else 0)"
  "DaysBeforeMonth y 5 = 120 + (if InLeapYear y then 1 else 0)"
  "DaysBeforeMonth y 6 = 151 + (if InLeapYear y then 1 else 0)"
  "DaysBeforeMonth y 7 = 181 + (if InLeapYear y then 1 else 0)"
  "DaysBeforeMonth y 8 = 212 + (if InLeapYear y then 1 else 0)"
  "DaysBeforeMonth y 9 = 243 + (if InLeapYear y then 1 else 0)"
  "DaysBeforeMonth y 10 = 273 + (if InLeapYear y then 1 else 0)"
  "DaysBeforeMonth y 11 = 304 + (if InLeapYear y then 1 else 0)"
  "DaysBeforeMonth y 12 = 334 + (if InLeapYear y then 1 else 0)"
  by (simp_all add: DaysBeforeMonth_def)

lemma DaysInMonth_table:
  "DaysInMonth y 1 = 31" "DaysInMonth y 2 = (if InLeapYear y then 29 else 28)"
  "DaysInMonth y 3 = 31" "DaysInMonth y 4 = 30" "DaysInMonth y 5 = 31" "DaysInMonth y 6 = 30"
  "DaysInMonth y 7 = 31" "DaysInMonth y 8 = 31" "DaysInMonth y 9 = 30" "DaysInMonth y 10 = 31"
  "DaysInMonth y 11 = 30" "DaysInMonth y 12 = 31"
  by (simp_all add: DaysInMonth_def)

lemma civil_from_time:
  "valid_day (YearFromTime t, MonthFromTime t + 1, DateFromTime t)"
  "MakeDay (YearFromTime t) (MonthFromTime t + 1) (DateFromTime t) = Day t"
proof -
  define y where "y = YearFromTime t"
  define d where "d = DayWithinYear t"
  define L :: int where "L = (if InLeapYear y then 1 else 0)"
  have r: "0 \<le> d" "d < 365 + L"
    using DayWithinYear_range [of t] by (simp_all add: d_def y_def L_def split: if_splits)
  have L: "L = 0 \<or> L = 1" by (simp add: L_def)
  have tab: "DaysBeforeMonth y 1 = 0" "DaysBeforeMonth y 2 = 31"
    "DaysBeforeMonth y 3 = 59 + L" "DaysBeforeMonth y 4 = 90 + L" "DaysBeforeMonth y 5 = 120 + L"
    "DaysBeforeMonth y 6 = 151 + L" "DaysBeforeMonth y 7 = 181 + L" "DaysBeforeMonth y 8 = 212 + L"
    "DaysBeforeMonth y 9 = 243 + L" "DaysBeforeMonth y 10 = 273 + L"
    "DaysBeforeMonth y 11 = 304 + L" "DaysBeforeMonth y 12 = 334 + L"
    by (simp_all add: DaysBeforeMonth_table L_def)
  have dim: "DaysInMonth y 1 = 31" "DaysInMonth y 2 = 28 + L"
    "DaysInMonth y 3 = 31" "DaysInMonth y 4 = 30" "DaysInMonth y 5 = 31" "DaysInMonth y 6 = 30"
    "DaysInMonth y 7 = 31" "DaysInMonth y 8 = 31" "DaysInMonth y 9 = 30" "DaysInMonth y 10 = 31"
    "DaysInMonth y 11 = 30" "DaysInMonth y 12 = 31"
    by (simp_all add: DaysInMonth_table L_def)
  define m where "m = MonthFromTime t"
  have m: "m =
     (if d < 31 then 0 else if d < 59 + L then 1
      else if d < 90 + L then 2 else if d < 120 + L then 3
      else if d < 151 + L then 4 else if d < 181 + L then 5
      else if d < 212 + L then 6 else if d < 243 + L then 7
      else if d < 273 + L then 8 else if d < 304 + L then 9
      else if d < 334 + L then 10 else 11)"
    unfolding m_def MonthFromTime_def Let_def y_def [symmetric] d_def [symmetric] tab ..
  have dd: "DateFromTime t = d - DaysBeforeMonth y (m + 1) + 1"
    by (simp add: DateFromTime_def d_def y_def m_def)
  have "1 \<le> m + 1 \<and> m + 1 \<le> 12 \<and> 1 \<le> d - DaysBeforeMonth y (m + 1) + 1
      \<and> d - DaysBeforeMonth y (m + 1) + 1 \<le> DaysInMonth y (m + 1)"
    using r L unfolding m by (simp add: tab dim split: if_splits) 
  then show "valid_day (YearFromTime t, MonthFromTime t + 1, DateFromTime t)"
    unfolding valid_day_def dd y_def [symmetric] m_def [symmetric] by simp
  show "MakeDay (YearFromTime t) (MonthFromTime t + 1) (DateFromTime t) = Day t"
    unfolding dd y_def [symmetric] m_def [symmetric]
    by (simp add: MakeDay_def d_def DayWithinYear_def y_def)
qed

text \<open>
  Local midnight of a day, as a UTC instant, lies in the previous UTC day when the
  zone is east of UTC then, and in the same UTC day when it is at or west of UTC.
\<close>

lemma local_midnight_utc_day:
  "0 < offset_at_local z (n * msPerDay) \<Longrightarrow> offset_at_local z (n * msPerDay) \<le> msPerDay
     \<Longrightarrow> Day (UTC z (n * msPerDay)) = n - 1"
  "offset_at_local z (n * msPerDay) \<le> 0 \<Longrightarrow> - msPerDay < offset_at_local z (n * msPerDay)
     \<Longrightarrow> Day (UTC z (n * msPerDay)) = n"
proof -
  define tza where "tza = offset_at_local z (n * msPerDay)"
  have a: "Day (UTC z (n * msPerDay)) = (n * 86400000 - tza) div 86400000"
    by (simp add: Day_def UTC_def msPerDay_def tza_def)
  have "Day (UTC z (n * msPerDay)) = n - 1" if "0 < tza" "tza \<le> msPerDay"
  proof -
    have "n * 86400000 - tza = (86400000 - tza) + (n - 1) * 86400000" by (simp add: algebra_simps)
    then have "(n * 86400000 - tza) div 86400000 = (86400000 - tza) div 86400000 + (n - 1)"
      by (simp only: div_mult_self1)
    moreover have "(86400000 - tza) div 86400000 = 0"
      using that by (intro div_pos_pos_trivial) (simp_all add: msPerDay_def)
    ultimately show ?thesis by (simp add: a)
  qed
  then show "0 < offset_at_local z (n * msPerDay) \<Longrightarrow> offset_at_local z (n * msPerDay) \<le> msPerDay
     \<Longrightarrow> Day (UTC z (n * msPerDay)) = n - 1"
    by (simp add: tza_def)
  have "Day (UTC z (n * msPerDay)) = n" if "tza \<le> 0" "- msPerDay < tza"
  proof -
    have "n * 86400000 - tza = (- tza) + n * 86400000" by simp
    then have "(n * 86400000 - tza) div 86400000 = (- tza) div 86400000 + n"
      by (simp only: div_mult_self1)
    moreover have "(- tza) div 86400000 = 0"
      using that by (intro div_pos_pos_trivial) (simp_all add: msPerDay_def)
    ultimately show ?thesis by (simp add: a)
  qed
  then show "offset_at_local z (n * msPerDay) \<le> 0 \<Longrightarrow> - msPerDay < offset_at_local z (n * msPerDay)
     \<Longrightarrow> Day (UTC z (n * msPerDay)) = n"
    by (simp add: tza_def)
qed

text \<open>
  So whenever the zone is east of UTC at local midnight of the first of the
  month, the instant built for that day has the day before as its UTC day, the
  day \<^verbatim>\<open>toISOString\<close> prints.
\<close>

lemma first_of_month_is_previous_utc_day:
  assumes "0 < offset_at_local z (MakeDay y (monthIndex + 1) 1 * msPerDay)"
    and "offset_at_local z (MakeDay y (monthIndex + 1) 1 * msPerDay) \<le> msPerDay"
    and "\<not> (0 \<le> y \<and> y \<le> 99)"
    and "new_Date_ymd z y monthIndex 1 = Some u"
  shows "Day u = MakeDay y (monthIndex + 1) 1 - 1"
proof -
  from assms(3,4) have "u = UTC z (MakeDay y (monthIndex + 1) 1 * msPerDay)"
    by (auto simp: new_Date_ymd_def TimeClip_def split: if_splits)
  then show ?thesis using local_midnight_utc_day(1) [OF assms(1,2)] by simp
qed

text \<open>
  Claim C9 fails on the code. At 10:00 on 15 March 2024 in the zone UTC+05:30 the
  first day of the current month is 1 March, yet the initial start date is
  2024-02-29: the local midnight of 1 March is 18:30Z of 29 February, and
  \<^verbatim>\<open>toISOString\<close> prints the UTC day. At 03:00 of the same local day the
  initial end date is 2024-03-14, the UTC day, not the current day. The category
  and amount bounds are unset as claimed.
\<close>

theorem initial_filter_state_utc_day:
  "local_day ist march_15_10am_ist = (2024, 3, 15) \<and>
   initial_filter_state ist march_15_10am_ist =
     Inr \<lparr>selectedFilterCategories = [], filterStartDate = ''2024-02-29'',
          filterEndDate = ''2024-03-15'', filterAmountMin = '''', filterAmountMax = ''''\<rparr> \<and>
   local_day ist march_15_3am_ist = (2024, 3, 15) \<and>
   initial_filter_state ist march_15_3am_ist =
     Inr \<lparr>selectedFilterCategories = [], filterStartDate = ''2024-02-29'',
          filterEndDate = ''2024-03-14'', filterAmountMin = '''', filterAmountMax = ''''\<rparr>"
proof -
  have a: "local_day ist march_15_10am_ist = (2024, 3, 15)" by code_simp
  have b: "filterStartDate_init ist march_15_10am_ist = Inr ''2024-02-29''" by code_simp
  have c: "filterEndDate_init ist march_15_10am_ist = Inr ''2024-03-15''" by code_simp
  have d: "local_day ist march_15_3am_ist = (2024, 3, 15)" by code_simp
  have e: "filterStartDate_init ist march_15_3am_ist = Inr ''2024-02-29''" by code_simp
  have f: "filterEndDate_init ist march_15_3am_ist = Inr ''2024-03-14''" by code_simp
  show ?thesis by (simp add: initial_filter_state_def a b c d e f)
qed

end
